theory Spec2Isabelle
  imports Complex_Main "HOL-Library.Sublist"
begin

section \<open>mockgen: a generator of mock data directories\<close>

text \<open>
  The program (\<^verbatim>\<open>go_work/mockgen/main.go\<close>) wipes and recreates a base directory and
  fills it with text, CSV and image files and with subdirectories.  Its functions
  \<^verbatim>\<open>main\<close>, \<^verbatim>\<open>generateMockData\<close>, \<^verbatim>\<open>writeTextFile\<close>, \<^verbatim>\<open>writeCSVFile\<close> and
  \<^verbatim>\<open>writeImageFile\<close> are embedded below, statement by statement, as functions that
  pass a \<open>world\<close> (file system, standard output, the calls made so far, the positions
  in the random and clock streams).  Everything the program obtains from outside
  (whether a system call fails, the random data, the clock, the image encoders) is read
  from an environment \<open>env\<close>, so every theorem holds for all environments.
\<close>

subsection \<open>Formatting verbs and path functions of the Go library\<close>

definition digit_char :: "nat \<Rightarrow> char" where
  "digit_char d = char_of (48 + d)"

text \<open>Decimal digits of a natural number, most significant first (verb \<^verbatim>\<open>%d\<close>).\<close>

function show_nat :: "nat \<Rightarrow> string" where
  "show_nat n = (if n < 10 then [digit_char n] else show_nat (n div 10) @ [digit_char (n mod 10)])"
  by pat_completeness auto
termination
  by (relation "measure (\<lambda>n. n)") auto

definition Sprintf_d :: "int \<Rightarrow> string" where
  "Sprintf_d i = (if i < 0 then CHR ''-'' # show_nat (nat (- i)) else show_nat (nat i))"

text \<open>
  \<^verbatim>\<open>appendInt(b, x, width)\<close> of package time: the digits of \<open>x\<close>, zero-padded on the left
  to \<open>width\<close>, after a minus sign when \<open>x\<close> is negative.
\<close>

definition appendInt :: "int \<Rightarrow> nat \<Rightarrow> string" where
  "appendInt x width =
     (let ds = show_nat (nat \<bar>x\<bar>)
      in (if x < 0 then ''-'' else '''') @ replicate (width - length ds) CHR ''0'' @ ds)"

text \<open>
  \<^verbatim>\<open>filepath.Join\<close> for two elements: empty elements are ignored, the others are joined
  by the separator.  The lexical normalisation (\<^verbatim>\<open>filepath.Clean\<close>) that Go applies to
  the result is not modelled: a location is identified with the spelling of its path,
  and the names the program appends are already clean.
\<close>

definition Join :: "string \<Rightarrow> string \<Rightarrow> string" where
  "Join a b = (if a = [] then b else if b = [] then a else a @ ''/'' @ b)"

text \<open>
  \<^verbatim>\<open>filepath.Ext\<close>: scan the path backwards up to the last separator; the extension is
  the suffix that starts at the first dot met, and is empty when there is none.
\<close>

fun ext_scan :: "string \<Rightarrow> string \<Rightarrow> string" where
  "ext_scan [] acc = []"
| "ext_scan (c # rs) acc =
     (if c = CHR ''/'' then []
      else if c = CHR ''.'' then c # acc
      else ext_scan rs (c # acc))"

definition Ext :: "string \<Rightarrow> string" where
  "Ext path = ext_scan (rev path) []"

subsection \<open>Calendar and clock (package time)\<close>

text \<open>
  A \<^verbatim>\<open>time.Time\<close> is its instant: nanoseconds since 1970-01-01T00:00:00.  Calendar
  dates are read in one zone (UTC); time zones are not modelled.
\<close>

type_synonym time = int

definition nsPerDay :: int where
  "nsPerDay = 86400 * 1000000000"

definition is_leap :: "int \<Rightarrow> bool" where
  "is_leap y = (y mod 4 = 0 \<and> (y mod 100 \<noteq> 0 \<or> y mod 400 = 0))"

definition days_in_year :: "int \<Rightarrow> int" where
  "days_in_year y = (if is_leap y then 366 else 365)"

definition days_in_month :: "int \<Rightarrow> int \<Rightarrow> int" where
  "days_in_month y m =
     (if m = 2 then (if is_leap y then 29 else 28)
      else if m = 4 \<or> m = 6 \<or> m = 9 \<or> m = 11 then 30 else 31)"

text \<open>Leap years among the years \<open>1 .. y - 1\<close> (proleptic Gregorian calendar).\<close>

definition leaps_before :: "int \<Rightarrow> int" where
  "leaps_before y = (y - 1) div 4 - (y - 1) div 100 + (y - 1) div 400"

definition days_before_year :: "int \<Rightarrow> int" where
  "days_before_year y = 365 * (y - 1970) + (leaps_before y - leaps_before 1970)"

text \<open>The table \<^verbatim>\<open>daysBefore\<close> of package time, for a month in \<open>1 .. 12\<close>.\<close>

definition days_before_month :: "int \<Rightarrow> int \<Rightarrow> int" where
  "days_before_month y m =
     [0, 31, 59, 90, 120, 151, 181, 212, 243, 273, 304, 334] ! nat (m - 1)
       + (if is_leap y \<and> 3 \<le> m then 1 else 0)"

text \<open>Days from 1970-01-01 to the given date; the day of the month is only added.\<close>

definition days_from_civil :: "int \<Rightarrow> int \<Rightarrow> int \<Rightarrow> int" where
  "days_from_civil y m d = days_before_year y + days_before_month y m + (d - 1)"

text \<open>
  \<^verbatim>\<open>time.Date\<close> normalises a month outside \<open>1 .. 12\<close> into the neighbouring years and lets
  a day beyond the end of the month run into the next one (October 32 is November 1).
  \<open>tod\<close> is the time of day in nanoseconds.
\<close>

definition go_Date :: "int \<Rightarrow> int \<Rightarrow> int \<Rightarrow> int \<Rightarrow> time" where
  "go_Date y m d tod =
     (let m0 = m - 1; y' = y + m0 div 12; m' = m0 mod 12 + 1
      in days_from_civil y' m' d * nsPerDay + tod)"

text \<open>The calendar date of a day number: first the year, then the month.\<close>

function year_from :: "int \<Rightarrow> int \<Rightarrow> int \<times> int" where
  "year_from y n =
     (if n < 0 then year_from (y - 1) (n + days_in_year (y - 1))
      else if days_in_year y \<le> n then year_from (y + 1) (n - days_in_year y)
      else (y, n))"
  by pat_completeness auto
termination
  by (relation "measure (\<lambda>(y, n). if n < 0 then nat (- n) + 400 else nat n)")
     (auto simp: days_in_year_def split: if_splits)

function month_from :: "int \<Rightarrow> int \<Rightarrow> int \<Rightarrow> int \<times> int" where
  "month_from y m n =
     (if m < 12 \<and> days_in_month y m \<le> n then month_from y (m + 1) (n - days_in_month y m)
      else (m, n + 1))"
  by pat_completeness auto
termination
  by (relation "measure (\<lambda>(y, m, n). nat (12 - m))") auto

definition civil_from_days :: "int \<Rightarrow> int \<times> int \<times> int" where
  "civil_from_days n =
     (let (y, r) = year_from 1970 n; (m, d) = month_from y 1 r in (y, m, d))"

definition Date_of :: "time \<Rightarrow> int \<times> int \<times> int" where
  "Date_of t = civil_from_days (t div nsPerDay)"

text \<open>\<^verbatim>\<open>t.AddDate(years, months, days)\<close>: add to the calendar fields and renormalise.\<close>

definition AddDate :: "time \<Rightarrow> int \<Rightarrow> int \<Rightarrow> int \<Rightarrow> time" where
  "AddDate t years months days =
     (let (y, m, d) = Date_of t
      in go_Date (y + years) (m + months) (d + days) (t mod nsPerDay))"

text \<open>\<^verbatim>\<open>t.Format("2006-01-02")\<close>.\<close>

definition Format_date :: "time \<Rightarrow> string" where
  "Format_date t =
     (let (y, m, d) = Date_of t
      in appendInt y 4 @ ''-'' @ appendInt m 2 @ ''-'' @ appendInt d 2)"

subsection \<open>Random data (package gofakeit) and the verb for two decimals\<close>

text \<open>
  A \<^verbatim>\<open>float64\<close> is the rational number it denotes; the rounding error of the floating
  point operations is not modelled.  \<open>Float64\<close> is \<^verbatim>\<open>rand.Float64\<close>: 53 random bits
  scaled into the unit interval.
\<close>

definition Float64 :: "nat \<Rightarrow> rat" where
  "Float64 r = of_nat (r mod 2 ^ 53) / 2 ^ 53"

definition float64Range :: "nat \<Rightarrow> rat \<Rightarrow> rat \<Rightarrow> rat" where
  "float64Range r lo hi = (if lo = hi then lo else Float64 r * (hi - lo) + lo)"

text \<open>A random integer between two bounds, both included; the bounds are swapped when
  they come in the wrong order.\<close>

definition randIntRange :: "nat \<Rightarrow> int \<Rightarrow> int \<Rightarrow> int" where
  "randIntRange r lo hi =
     (if lo = hi then lo
      else let a = min lo hi; b = max lo hi in a + int (r mod nat (b - a + 1)))"

definition round_half_even :: "rat \<Rightarrow> int" where
  "round_half_even q =
     (let f = \<lfloor>q\<rfloor>; r = q - of_int f
      in if r < 1 / 2 then f
         else if 1 / 2 < r then f + 1
         else if even f then f else f + 1)"

text \<open>\<^verbatim>\<open>fmt.Sprintf("%.2f", x)\<close>: the decimal with two places nearest to \<open>x\<close>.\<close>

definition Sprintf_2f :: "rat \<Rightarrow> string" where
  "Sprintf_2f x =
     (let c = round_half_even (100 * \<bar>x\<bar>)
      in (if x < 0 then ''-'' else '''') @ show_nat (nat (c div 100)) @ ''.''
           @ appendInt (c mod 100) 2)"

subsection \<open>Records of a CSV file (package encoding/csv)\<close>

abbreviation LF :: char where "LF \<equiv> CHR 0x0A"
abbreviation CR :: char where "CR \<equiv> CHR 0x0D"
abbreviation DQUOTE :: char where "DQUOTE \<equiv> CHR 0x22"
abbreviation COMMA :: char where "COMMA \<equiv> CHR '',''"

text \<open>UTF-8 encodings of the code points \<^verbatim>\<open>unicode.IsSpace\<close> accepts.\<close>

definition space_runes :: "string list" where
  "space_runes =
     [[CHR 0x09], [LF], [CHR 0x0B], [CHR 0x0C], [CR], [CHR 0x20],
      [CHR 0xC2, CHR 0x85], [CHR 0xC2, CHR 0xA0], [CHR 0xE1, CHR 0x9A, CHR 0x80],
      [CHR 0xE2, CHR 0x80, CHR 0x80], [CHR 0xE2, CHR 0x80, CHR 0x81],
      [CHR 0xE2, CHR 0x80, CHR 0x82], [CHR 0xE2, CHR 0x80, CHR 0x83],
      [CHR 0xE2, CHR 0x80, CHR 0x84], [CHR 0xE2, CHR 0x80, CHR 0x85],
      [CHR 0xE2, CHR 0x80, CHR 0x86], [CHR 0xE2, CHR 0x80, CHR 0x87],
      [CHR 0xE2, CHR 0x80, CHR 0x88], [CHR 0xE2, CHR 0x80, CHR 0x89],
      [CHR 0xE2, CHR 0x80, CHR 0x8A], [CHR 0xE2, CHR 0x80, CHR 0xA8],
      [CHR 0xE2, CHR 0x80, CHR 0xA9], [CHR 0xE2, CHR 0x80, CHR 0xAF],
      [CHR 0xE2, CHR 0x81, CHR 0x9F], [CHR 0xE3, CHR 0x80, CHR 0x80]]"

definition fieldNeedsQuotes :: "string \<Rightarrow> bool" where
  "fieldNeedsQuotes field =
     (if field = [] then False
      else if field = [CHR 0x5C, CHR ''.''] then True
      else if list_ex (\<lambda>c. c = LF \<or> c = CR \<or> c = DQUOTE \<or> c = COMMA) field then True
      else list_ex (\<lambda>p. prefix p field) space_runes)"

text \<open>Inside quotes a quote is doubled; every other byte is copied.\<close>

fun quote_body :: "string \<Rightarrow> string" where
  "quote_body [] = []"
| "quote_body (c # cs) = (if c = DQUOTE then [DQUOTE, DQUOTE] else [c]) @ quote_body cs"

definition csv_field :: "string \<Rightarrow> string" where
  "csv_field field =
     (if fieldNeedsQuotes field then [DQUOTE] @ quote_body field @ [DQUOTE] else field)"

fun csv_join :: "string list \<Rightarrow> string" where
  "csv_join [] = []"
| "csv_join [f] = csv_field f"
| "csv_join (f # g # fs) = csv_field f @ [COMMA] @ csv_join (g # fs)"

text \<open>The bytes \<^verbatim>\<open>csv.Writer.Write\<close> produces for one record: the fields, then a line feed.\<close>

definition csv_line :: "string list \<Rightarrow> string" where
  "csv_line flds = csv_join flds @ [LF]"

subsection \<open>The world: file system, standard output, environment\<close>

text \<open>
  A node is a directory or a regular file, with the permission bits it was created with
  (before the umask) and, for a file, its bytes.  The file system maps a path to the node
  it names.
\<close>

datatype node = Dir nat | File nat string

type_synonym filesystem = "string \<Rightarrow> node option"

text \<open>The calls into the operating system.  A write is named by the file and the
  offset at which it starts.\<close>

datatype syscall =
    RemoveAll string
  | MkdirAll string nat
  | OpenFile string nat
  | Write string nat
  | Close string

text \<open>A failed call: the text of its error and, for a write, the number of bytes that
  reached the file before the failure.\<close>

datatype fault = Fault (message: string) (written: nat)

datatype format = PNG | JPEG

record image =
  img_width :: int
  img_height :: int
  pixels :: nat

text \<open>
  The environment.  \<open>faults\<close> says which calls fail; whether a call fails is the
  environment's choice alone (permissions, disk space, conflicts), the model derives no
  failure from the state of the file system.  \<open>gone\<close> says what a failing recursive
  removal had already removed.  \<open>uuid_src\<close>, \<open>phrase_src\<close>, \<open>paragraph_src\<close> and
  \<open>entropy\<close> are the random generator's successive outputs, \<open>clock\<close> the successive
  readings of the wall clock, and \<open>encode\<close> the bytes of an encoded image.
\<close>

record env =
  faults :: "syscall \<Rightarrow> fault option"
  gone :: "string \<Rightarrow> bool"
  uuid_src :: "nat \<Rightarrow> string"
  phrase_src :: "nat \<Rightarrow> string"
  paragraph_src :: "nat \<Rightarrow> string"
  entropy :: "nat \<Rightarrow> nat"
  clock :: "nat \<Rightarrow> time"
  encode :: "format \<Rightarrow> image \<Rightarrow> string"

record world =
  fs :: filesystem
  stdout :: "string list"
  trace :: "syscall list"
  draws :: nat
  ticks :: nat

type_synonym error = string

type_synonym handle = string

text \<open>\<open>inside d q\<close>: the path \<open>q\<close> is \<open>d\<close> or lies below it.\<close>

definition inside :: "string \<Rightarrow> string \<Rightarrow> bool" where
  "inside d q = (q = d \<or> prefix (d @ ''/'') q)"

definition file_bytes :: "filesystem \<Rightarrow> string \<Rightarrow> string" where
  "file_bytes f p = (case f p of Some (File m c) \<Rightarrow> c | _ \<Rightarrow> [])"

definition append_bytes :: "filesystem \<Rightarrow> string \<Rightarrow> string \<Rightarrow> filesystem" where
  "append_bytes f p d = (case f p of Some (File m c) \<Rightarrow> f(p \<mapsto> File m (c @ d)) | _ \<Rightarrow> f)"

text \<open>\<^verbatim>\<open>os.RemoveAll\<close>: the empty path is accepted silently; otherwise the path and
  everything below it is removed, or part of it when the call fails.\<close>

definition os_RemoveAll :: "env \<Rightarrow> string \<Rightarrow> world \<Rightarrow> error option \<times> world" where
  "os_RemoveAll E path w =
     (if path = [] then (None, w)
      else
        let w1 = w\<lparr>trace := trace w @ [RemoveAll path]\<rparr>
        in case faults E (RemoveAll path) of
             Some f \<Rightarrow>
               (Some (message f),
                w1\<lparr>fs := (\<lambda>q. if inside path q \<and> gone E q then None else fs w q)\<rparr>)
           | None \<Rightarrow>
               (None, w1\<lparr>fs := (\<lambda>q. if inside path q then None else fs w q)\<rparr>))"

text \<open>\<^verbatim>\<open>os.MkdirAll\<close>: an existing directory is left as it is; the empty path cannot be
  created.  Directories above the path are outside the model.\<close>

definition os_MkdirAll :: "env \<Rightarrow> string \<Rightarrow> nat \<Rightarrow> world \<Rightarrow> error option \<times> world" where
  "os_MkdirAll E path perm w =
     (let w1 = w\<lparr>trace := trace w @ [MkdirAll path perm]\<rparr>
      in if path = [] then (Some ''mkdir : no such file or directory'', w1)
         else case faults E (MkdirAll path perm) of
                Some f \<Rightarrow> (Some (message f), w1)
              | None \<Rightarrow>
                  (None,
                   case fs w path of
                     Some (Dir m) \<Rightarrow> w1
                   | _ \<Rightarrow> w1\<lparr>fs := (fs w)(path \<mapsto> Dir perm)\<rparr>))"

text \<open>\<^verbatim>\<open>os.OpenFile\<close> with \<^verbatim>\<open>O_CREATE|O_TRUNC\<close>: the file is created with the given
  permissions, or truncated when it exists.  The handle is the path.\<close>

definition os_OpenFile :: "env \<Rightarrow> string \<Rightarrow> nat \<Rightarrow> world \<Rightarrow> (error + handle) \<times> world" where
  "os_OpenFile E path perm w =
     (let w1 = w\<lparr>trace := trace w @ [OpenFile path perm]\<rparr>
      in case faults E (OpenFile path perm) of
           Some f \<Rightarrow> (Inl (message f), w1)
         | None \<Rightarrow>
             (Inr path,
              w1\<lparr>fs := (fs w)(path \<mapsto>
                     (case fs w path of Some (File m c) \<Rightarrow> File m [] | _ \<Rightarrow> File perm []))\<rparr>))"

definition os_Create :: "env \<Rightarrow> string \<Rightarrow> world \<Rightarrow> (error + handle) \<times> world" where
  "os_Create E path w = os_OpenFile E path 438 w"

definition file_Write :: "env \<Rightarrow> handle \<Rightarrow> string \<Rightarrow> world \<Rightarrow> error option \<times> world" where
  "file_Write E f d w =
     (let off = length (file_bytes (fs w) f);
          w1 = w\<lparr>trace := trace w @ [Write f off]\<rparr>
      in case faults E (Write f off) of
           Some flt \<Rightarrow>
             (Some (message flt), w1\<lparr>fs := append_bytes (fs w) f (take (written flt) d)\<rparr>)
         | None \<Rightarrow> (None, w1\<lparr>fs := append_bytes (fs w) f d\<rparr>))"

definition file_Close :: "env \<Rightarrow> handle \<Rightarrow> world \<Rightarrow> error option \<times> world" where
  "file_Close E f w =
     (let w1 = w\<lparr>trace := trace w @ [Close f]\<rparr>
      in case faults E (Close f) of
           Some flt \<Rightarrow> (Some (message flt), w1)
         | None \<Rightarrow> (None, w1))"

text \<open>\<^verbatim>\<open>os.WriteFile\<close>: open (create or truncate), write, close; the first error is
  returned.\<close>

definition os_WriteFile :: "env \<Rightarrow> string \<Rightarrow> string \<Rightarrow> nat \<Rightarrow> world \<Rightarrow> error option \<times> world" where
  "os_WriteFile E name d perm w =
     (case os_OpenFile E name perm w of
        (Inl err, w1) \<Rightarrow> (Some err, w1)
      | (Inr f, w1) \<Rightarrow>
          let (err, w2) = file_Write E f d w1;
              (err1, w3) = file_Close E f w2
          in (if err1 \<noteq> None \<and> err = None then err1 else err, w3))"

definition Printf :: "string \<Rightarrow> world \<Rightarrow> world" where
  "Printf s w = w\<lparr>stdout := stdout w @ [s]\<rparr>"

subsection \<open>Generators and encoders\<close>

definition Paragraph :: "env \<Rightarrow> int \<Rightarrow> int \<Rightarrow> int \<Rightarrow> string \<Rightarrow> world \<Rightarrow> string \<times> world" where
  "Paragraph E paragraphs sentences wds sep w =
     (paragraph_src E (draws w), w\<lparr>draws := draws w + 1\<rparr>)"

definition HackerPhrase :: "env \<Rightarrow> world \<Rightarrow> string \<times> world" where
  "HackerPhrase E w = (phrase_src E (draws w), w\<lparr>draws := draws w + 1\<rparr>)"

definition UUID :: "env \<Rightarrow> world \<Rightarrow> string \<times> world" where
  "UUID E w = (uuid_src E (draws w), w\<lparr>draws := draws w + 1\<rparr>)"

definition Float64Range :: "env \<Rightarrow> rat \<Rightarrow> rat \<Rightarrow> world \<Rightarrow> rat \<times> world" where
  "Float64Range E lo hi w =
     (float64Range (entropy E (draws w)) lo hi, w\<lparr>draws := draws w + 1\<rparr>)"

definition DateRange :: "env \<Rightarrow> time \<Rightarrow> time \<Rightarrow> world \<Rightarrow> time \<times> world" where
  "DateRange E start end' w =
     (randIntRange (entropy E (draws w)) start end', w\<lparr>draws := draws w + 1\<rparr>)"

definition Image :: "env \<Rightarrow> int \<Rightarrow> int \<Rightarrow> world \<Rightarrow> image \<times> world" where
  "Image E width height w =
     (\<lparr>img_width = width, img_height = height, pixels = entropy E (draws w)\<rparr>,
      w\<lparr>draws := draws w + 1\<rparr>)"

definition time_Now :: "env \<Rightarrow> world \<Rightarrow> time \<times> world" where
  "time_Now E w = (clock E (ticks w), w\<lparr>ticks := ticks w + 1\<rparr>)"

definition png_Encode :: "env \<Rightarrow> handle \<Rightarrow> image \<Rightarrow> world \<Rightarrow> error option \<times> world" where
  "png_Encode E f img w = file_Write E f (encode E PNG img) w"

definition jpeg_Encode :: "env \<Rightarrow> handle \<Rightarrow> image \<Rightarrow> world \<Rightarrow> error option \<times> world" where
  "jpeg_Encode E f img w = file_Write E f (encode E JPEG img) w"

text \<open>
  \<^verbatim>\<open>csv.Writer\<close>: records are collected in a buffer and handed to the file when the buffer
  is full and at \<open>Flush\<close>; after a failed write the writer keeps its error and accepts
  nothing more.  The block boundaries of the buffer are not modelled: a buffer that has
  reached its size is handed over whole.
\<close>

record csv_writer =
  sink :: handle
  pending :: string
  werr :: "error option"

definition csv_NewWriter :: "handle \<Rightarrow> csv_writer" where
  "csv_NewWriter f = \<lparr>sink = f, pending = [], werr = None\<rparr>"

definition csv_Write ::
  "env \<Rightarrow> csv_writer \<Rightarrow> string list \<Rightarrow> world \<Rightarrow> error option \<times> csv_writer \<times> world" where
  "csv_Write E cw flds w =
     (case werr cw of
        Some e \<Rightarrow> (Some e, cw, w)
      | None \<Rightarrow>
          let buf = pending cw @ csv_line flds
          in if length buf \<le> 4096 then (None, cw\<lparr>pending := buf\<rparr>, w)
             else case file_Write E (sink cw) buf w of
                    (Some e, w1) \<Rightarrow> (Some e, cw\<lparr>pending := [], werr := Some e\<rparr>, w1)
                  | (None, w1) \<Rightarrow> (None, cw\<lparr>pending := []\<rparr>, w1))"

definition csv_Flush :: "env \<Rightarrow> csv_writer \<Rightarrow> world \<Rightarrow> csv_writer \<times> world" where
  "csv_Flush E cw w =
     (case werr cw of
        Some e \<Rightarrow> (cw, w)
      | None \<Rightarrow>
          if pending cw = [] then (cw, w)
          else case file_Write E (sink cw) (pending cw) w of
                 (Some e, w1) \<Rightarrow> (cw\<lparr>pending := [], werr := Some e\<rparr>, w1)
               | (None, w1) \<Rightarrow> (cw\<lparr>pending := []\<rparr>, w1))"

subsection \<open>The program\<close>

record Config =
  BaseDir :: string
  TextFiles :: int
  CsvFiles :: int
  ImageFiles :: int
  SubDirs :: int

text \<open>\<^verbatim>\<open>writeTextFile\<close>: a failed write is reported on standard output and dropped.\<close>

definition writeTextFile :: "env \<Rightarrow> string \<Rightarrow> string \<Rightarrow> world \<Rightarrow> world" where
  "writeTextFile E path content w =
     (case os_WriteFile E path content 420 w of
        (Some err, w1) \<Rightarrow>
          Printf (''Error writing text file '' @ path @ '': '' @ err @ [LF]) w1
      | (None, w1) \<Rightarrow> w1)"

text \<open>The record literal of \<^verbatim>\<open>writeCSVFile\<close>; its elements are evaluated in order.\<close>

definition new_record :: "env \<Rightarrow> world \<Rightarrow> string list \<times> world" where
  "new_record E w =
     (let (uuid, w1) = UUID E w;
          (now1, w2) = time_Now E w1;
          start = AddDate now1 0 (- 6) 0;
          (now2, w3) = time_Now E w2;
          (date, w4) = DateRange E start now2 w3;
          (amount, w5) = Float64Range E 1 1000 w4;
          (phrase, w6) = HackerPhrase E w5
      in ([uuid, Format_date date, Sprintf_2f amount, phrase], w6))"

text \<open>The loop \<^verbatim>\<open>for range rows\<close>; the results of \<^verbatim>\<open>writer.Write\<close> are dropped.\<close>

function rows_loop ::
  "env \<Rightarrow> csv_writer \<Rightarrow> int \<Rightarrow> int \<Rightarrow> world \<Rightarrow> csv_writer \<times> world" where
  "rows_loop E cw i rows w =
     (if i < rows then
        let (rcd, w1) = new_record E w;
            (_, cw1, w2) = csv_Write E cw rcd w1
        in rows_loop E cw1 (i + 1) rows w2
      else (cw, w))"
  by pat_completeness auto
termination
  by (relation "measure (\<lambda>(E, cw, i, rows, w). nat (rows - i))") auto

text \<open>\<^verbatim>\<open>writeCSVFile\<close>; the deferred \<^verbatim>\<open>writer.Flush()\<close> and \<^verbatim>\<open>file.Close()\<close> run in
  this order when the function returns.\<close>

definition writeCSVFile :: "env \<Rightarrow> string \<Rightarrow> int \<Rightarrow> world \<Rightarrow> world" where
  "writeCSVFile E path rows w =
     (case os_Create E path w of
        (Inl err, w1) \<Rightarrow>
          Printf (''Error creating CSV file '' @ path @ '': '' @ err @ [LF]) w1
      | (Inr f, w1) \<Rightarrow>
          let writer = csv_NewWriter f;
              (_, writer1, w2) =
                 csv_Write E writer [''UserID'', ''Timestamp'', ''Amount'', ''Description''] w1;
              (writer2, w3) = rows_loop E writer1 0 rows w2;
              (_, w4) = csv_Flush E writer2 w3;
              (_, w5) = file_Close E f w4
          in w5)"

text \<open>\<^verbatim>\<open>writeImageFile\<close>; the results of the encoders are dropped.\<close>

definition writeImageFile :: "env \<Rightarrow> string \<Rightarrow> int \<Rightarrow> int \<Rightarrow> world \<Rightarrow> world" where
  "writeImageFile E path width height w =
     (let (img, w1) = Image E width height w
      in case os_Create E path w1 of
           (Inl err, w2) \<Rightarrow>
             Printf (''Error creating image file '' @ path @ '': '' @ err @ [LF]) w2
         | (Inr f, w2) \<Rightarrow>
             let (_, w3) =
                   (if Ext path = ''.png'' then png_Encode E f img w2
                    else jpeg_Encode E f img w2);
                 (_, w4) = file_Close E f w3
             in w4)"

text \<open>The four loops of \<^verbatim>\<open>generateMockData\<close>.\<close>

function text_loop :: "env \<Rightarrow> Config \<Rightarrow> int \<Rightarrow> world \<Rightarrow> world" where
  "text_loop E cfg i w =
     (if i < TextFiles cfg then
        let path = Join (BaseDir cfg) (''document_'' @ Sprintf_d i @ ''.txt'');
            (content, w1) = Paragraph E 5 10 50 '' '' w
        in text_loop E cfg (i + 1) (writeTextFile E path content w1)
      else w)"
  by pat_completeness auto
termination
  by (relation "measure (\<lambda>(E, cfg, i, w). nat (TextFiles cfg - i))") auto

function csv_loop :: "env \<Rightarrow> Config \<Rightarrow> int \<Rightarrow> world \<Rightarrow> world" where
  "csv_loop E cfg i w =
     (if i < CsvFiles cfg then
        let path = Join (BaseDir cfg) (''transactions_'' @ Sprintf_d i @ ''.csv'')
        in csv_loop E cfg (i + 1) (writeCSVFile E path 100 w)
      else w)"
  by pat_completeness auto
termination
  by (relation "measure (\<lambda>(E, cfg, i, w). nat (CsvFiles cfg - i))") auto

function image_loop :: "env \<Rightarrow> Config \<Rightarrow> int \<Rightarrow> world \<Rightarrow> world" where
  "image_loop E cfg i w =
     (if i < ImageFiles cfg then
        let path = Join (BaseDir cfg) (''photo_'' @ Sprintf_d i @ ''.jpg'')
        in image_loop E cfg (i + 1) (writeImageFile E path 640 480 w)
      else w)"
  by pat_completeness auto
termination
  by (relation "measure (\<lambda>(E, cfg, i, w). nat (ImageFiles cfg - i))") auto

function subdir_loop :: "env \<Rightarrow> Config \<Rightarrow> int \<Rightarrow> world \<Rightarrow> error option \<times> world" where
  "subdir_loop E cfg i w =
     (if i < SubDirs cfg then
        let subDir = Join (BaseDir cfg) (''internal_data_'' @ Sprintf_d i)
        in case os_MkdirAll E subDir 493 w of
             (Some err, w1) \<Rightarrow> (Some err, w1)
           | (None, w1) \<Rightarrow>
               let (phrase, w2) = HackerPhrase E w1;
                   w3 = writeTextFile E (Join subDir ''secret_note.md'') phrase w2;
                   w4 = writeImageFile E (Join subDir ''thumb.png'') 100 100 w3
               in subdir_loop E cfg (i + 1) w4
      else (None, w))"
  by pat_completeness auto
termination
  by (relation "measure (\<lambda>(E, cfg, i, w). nat (SubDirs cfg - i))") auto

definition generateMockData :: "env \<Rightarrow> Config \<Rightarrow> world \<Rightarrow> error option \<times> world" where
  "generateMockData E cfg w =
     (case os_RemoveAll E (BaseDir cfg) w of
        (Some err, w1) \<Rightarrow> (Some err, w1)
      | (None, w1) \<Rightarrow>
          (case os_MkdirAll E (BaseDir cfg) 493 w1 of
             (Some err, w2) \<Rightarrow> (Some err, w2)
           | (None, w2) \<Rightarrow>
               subdir_loop E cfg 0
                 (image_loop E cfg 0 (csv_loop E cfg 0 (text_loop E cfg 0 w2)))))"

definition config :: Config where
  "config = \<lparr>BaseDir = ''../../mock_data'', TextFiles = 5, CsvFiles = 2, ImageFiles = 3,
     SubDirs = 2\<rparr>"

text \<open>\<^verbatim>\<open>main\<close>: the result is the exit code of the process and the final world.\<close>

definition main :: "env \<Rightarrow> world \<Rightarrow> int \<times> world" where
  "main E w =
     (let w1 = Printf (''--- Generating Mock Data in '' @ [CHR 0x27] @ BaseDir config
                         @ [CHR 0x27] @ '' ---'' @ [LF]) w
      in case generateMockData E config w1 of
           (Some err, w2) \<Rightarrow> (1, Printf (''FATAL Error: '' @ err @ [LF]) w2)
         | (None, w2) \<Rightarrow>
             (0, Printf (''--- Generation Complete. Ready for TDD. ---'' @ [LF]) w2))"

subsection \<open>Observations of a file system, and a sample environment\<close>



definition below :: "filesystem \<Rightarrow> string \<Rightarrow> string set" where
  "below f d = {q. inside d q \<and> q \<noteq> d \<and> f q \<noteq> None}"

definition fault_free :: "env \<Rightarrow> bool" where
  "fault_free E = (\<forall>c. faults E c = None)"

text \<open>An environment in which no call fails, and a world whose disk holds the remains
  of an earlier run.\<close>

definition quiet_env :: env where
  "quiet_env =
     \<lparr>faults = (\<lambda>c. None), gone = (\<lambda>q. False),
      uuid_src = (\<lambda>k. ''123e4567-e89b-42d3-a456-426614174000''),
      phrase_src = (\<lambda>k. ''If we hack the bus, we can get to the AI pixel!''),
      paragraph_src = (\<lambda>k. ''Lorem ipsum.''),
      entropy = (\<lambda>k. 7 * k + 3),
      clock = (\<lambda>k. 20758 * nsPerDay + int k),
      encode = (\<lambda>fmt img. case fmt of PNG \<Rightarrow> ''png'' | JPEG \<Rightarrow> ''jpeg'')\<rparr>"

definition used_world :: world where
  "used_world =
     \<lparr>fs = [''../../mock_data'' \<mapsto> Dir 493, ''../../mock_data/stale.txt'' \<mapsto> File 420 ''old''],
      stdout = [], trace = [], draws = 0, ticks = 0\<rparr>"

subsection \<open>Auxiliary notions for the statements\<close>

text \<open>The path of the \<open>i\<close>-th subdirectory, as the loop of \<open>generateMockData\<close> builds it.\<close>

definition subdir_path :: "Config \<Rightarrow> int \<Rightarrow> string" where
  "subdir_path cfg i = Join (BaseDir cfg) (''internal_data_'' @ Sprintf_d i)"

text \<open>The record \<open>new_record\<close> builds at given positions of the random and clock
  streams, the records of successive rows, and the bytes of a complete CSV file.\<close>

definition record_at :: "env \<Rightarrow> nat \<Rightarrow> nat \<Rightarrow> string list" where
  "record_at E d t =
     fst (new_record E \<lparr>fs = Map.empty, stdout = [], trace = [], draws = d, ticks = t\<rparr>)"

fun csv_records :: "env \<Rightarrow> nat \<Rightarrow> nat \<Rightarrow> nat \<Rightarrow> string list list" where
  "csv_records E d t 0 = []"
| "csv_records E d t (Suc n) = record_at E d t # csv_records E (d + 4) (t + 2) n"

definition csv_header :: "string list" where
  "csv_header = [''UserID'', ''Timestamp'', ''Amount'', ''Description'']"

definition csv_text :: "env \<Rightarrow> nat \<Rightarrow> nat \<Rightarrow> int \<Rightarrow> string" where
  "csv_text E d t rows = concat (map csv_line (csv_header # csv_records E d t (nat rows)))"

text \<open>The invariant of a CSV writer on a file of mode \<open>m\<close>: while the writer has no
  error, the bytes in the file followed by the pending bytes are the stream \<open>X\<close> written
  so far; after an error the file holds a prefix of \<open>X\<close>.\<close>

definition csv_inv :: "nat \<Rightarrow> csv_writer \<Rightarrow> world \<Rightarrow> string \<Rightarrow> bool" where
  "csv_inv m cw w X =
     (\<exists>c. fs w (sink cw) = Some (File m c) \<and>
          (case werr cw of None \<Rightarrow> c @ pending cw = X | Some e \<Rightarrow> prefix c X))"

text \<open>An environment in which the disk is full: every write fails before its first
  byte, every other call succeeds.\<close>

definition full_disk_env :: env where
  "full_disk_env =
     quiet_env\<lparr>faults :=
       (\<lambda>c. case c of Write p off \<Rightarrow> Some (Fault ''no space left on device'' 0) | _ \<Rightarrow> None)\<rparr>"

text \<open>An environment in which the base directory of \<open>config\<close> cannot be removed.\<close>

definition locked_env :: env where
  "locked_env =
     quiet_env\<lparr>faults :=
       (\<lambda>c. if c = RemoveAll ''../../mock_data'' then Some (Fault ''permission denied'' 0)
            else None)\<rparr>"

text \<open>The first line \<open>main\<close> prints.\<close>

definition start_banner :: string where
  "start_banner =
     ''--- Generating Mock Data in '' @ [CHR 0x27] @ ''../../mock_data'' @ [CHR 0x27] @ '' ---''
       @ [LF]"


text \<open>Two worlds agree below a directory: the same positions in the random and clock
  streams, and the same nodes at the directory and at every path below it.\<close>

definition sim :: "string \<Rightarrow> world \<Rightarrow> world \<Rightarrow> bool" where
  "sim d wa wb =
     (draws wa = draws wb \<and> ticks wa = ticks wb \<and> (\<forall>q. inside d q \<longrightarrow> fs wa q = fs wb q))"

text \<open>Reading back what the formatting verbs print: decimal digits, and a decimal
  numeral with exactly two digits after the point.\<close>

definition is_digit :: "char \<Rightarrow> bool" where
  "is_digit c = (48 \<le> (of_char c :: nat) \<and> (of_char c :: nat) \<le> 57)"

definition digit_val :: "char \<Rightarrow> nat" where
  "digit_val c = of_char c - 48"

definition nat_of_digits :: "string \<Rightarrow> nat" where
  "nat_of_digits s = foldl (\<lambda>a c. 10 * a + digit_val c) 0 s"

definition parse_fixed2 :: "string \<Rightarrow> rat option" where
  "parse_fixed2 s =
     (let ip = takeWhile (\<lambda>c. c \<noteq> CHR ''.'') s; fp = drop (length ip + 1) s
      in if ip \<noteq> [] \<and> list_all is_digit ip \<and> length s = length ip + 3 \<and> list_all is_digit fp
         then Some (of_nat (nat_of_digits ip) + of_nat (nat_of_digits fp) / 100)
         else None)"




text \<open>Reading one line of a CSV file back into its fields (the syntax of RFC 4180, which
  \<^verbatim>\<open>encoding/csv\<close> writes): a field that starts with a quote runs to the closing quote,
  a doubled quote inside it stands for one quote, and a quote anywhere else is an error.
  \<open>after_field\<close> continues after a field that ends at the end of the line or at a comma.\<close>

datatype rstate = FieldStart | Bare | Quoted | QuoteSeen

fun csv_scan :: "rstate \<Rightarrow> string \<Rightarrow> string list \<Rightarrow> string \<Rightarrow> string list option" where
  "csv_scan FieldStart cur flds [] = Some (flds @ [cur])"
| "csv_scan FieldStart cur flds (c # cs) =
     (if c = DQUOTE then csv_scan Quoted [] flds cs
      else if c = COMMA then csv_scan FieldStart [] (flds @ [[]]) cs
      else csv_scan Bare [c] flds cs)"
| "csv_scan Bare cur flds [] = Some (flds @ [cur])"
| "csv_scan Bare cur flds (c # cs) =
     (if c = COMMA then csv_scan FieldStart [] (flds @ [cur]) cs
      else if c = DQUOTE then None
      else csv_scan Bare (cur @ [c]) flds cs)"
| "csv_scan Quoted cur flds [] = None"
| "csv_scan Quoted cur flds (c # cs) =
     (if c = DQUOTE then csv_scan QuoteSeen cur flds cs
      else csv_scan Quoted (cur @ [c]) flds cs)"
| "csv_scan QuoteSeen cur flds [] = Some (flds @ [cur])"
| "csv_scan QuoteSeen cur flds (c # cs) =
     (if c = DQUOTE then csv_scan Quoted (cur @ [DQUOTE]) flds cs
      else if c = COMMA then csv_scan FieldStart [] (flds @ [cur]) cs
      else None)"

definition csv_fields :: "string \<Rightarrow> string list option" where
  "csv_fields l = csv_scan FieldStart [] [] l"

definition field_end :: "string \<Rightarrow> bool" where
  "field_end rest = (rest = [] \<or> hd rest = COMMA)"

definition after_field :: "string list \<Rightarrow> string \<Rightarrow> string list option" where
  "after_field flds rest = (if rest = [] then Some flds else csv_scan FieldStart [] flds (tl rest))"

section \<open>Properties\<close>

declare show_nat.simps [simp del] year_from.simps [simp del] month_from.simps [simp del]
  rows_loop.simps [simp del] text_loop.simps [simp del] csv_loop.simps [simp del]
  image_loop.simps [simp del] subdir_loop.simps [simp del]

lemmas prims = os_RemoveAll_def os_MkdirAll_def os_OpenFile_def os_Create_def file_Write_def
  file_Close_def os_WriteFile_def Printf_def Paragraph_def HackerPhrase_def UUID_def
  Float64Range_def DateRange_def Image_def time_Now_def png_Encode_def jpeg_Encode_def

subsection \<open>Extensions\<close>

lemma ext_scan_rev:
  "CHR ''/'' \<notin> set s \<Longrightarrow> CHR ''.'' \<notin> set s \<Longrightarrow> ext_scan (rev s @ r) acc = ext_scan r (s @ acc)"
  by (induction s arbitrary: r acc rule: rev_induct) auto

lemma Ext_append_dot:
  "CHR ''/'' \<notin> set s \<Longrightarrow> CHR ''.'' \<notin> set s \<Longrightarrow> Ext (p @ CHR ''.'' # s) = CHR ''.'' # s"
  using ext_scan_rev[of s "CHR ''.'' # rev p" "[]"] by (simp add: Ext_def)

lemma Ext_photo: "Ext (Join d (''photo_'' @ Sprintf_d i @ ''.jpg'')) = ''.jpg''"
proof -
  have e: "Join d (''photo_'' @ Sprintf_d i @ ''.jpg'')
             = ((if d = [] then [] else d @ ''/'') @ ''photo_'' @ Sprintf_d i) @ CHR ''.'' # ''jpg''"
    by (simp add: Join_def)
  show ?thesis unfolding e by (rule Ext_append_dot) simp_all
qed

lemma Ext_thumb: "Ext (Join d ''thumb.png'') = ''.png''"
proof -
  have e: "Join d ''thumb.png'' = ((if d = [] then [] else d @ ''/'') @ ''thumb'') @ CHR ''.'' # ''png''"
    by (simp add: Join_def)
  show ?thesis unfolding e by (rule Ext_append_dot) simp_all
qed

subsection \<open>Loops over a count that is not positive\<close>

lemma loops_zero:
  "TextFiles cfg \<le> 0 \<Longrightarrow> text_loop E cfg 0 w = w"
  "CsvFiles cfg \<le> 0 \<Longrightarrow> csv_loop E cfg 0 w = w"
  "ImageFiles cfg \<le> 0 \<Longrightarrow> image_loop E cfg 0 w = w"
  "SubDirs cfg \<le> 0 \<Longrightarrow> subdir_loop E cfg 0 w = (None, w)"
  by (simp_all add: text_loop.simps csv_loop.simps image_loop.simps subdir_loop.simps)

lemma generate_nothing:
  assumes "TextFiles cfg \<le> 0" "CsvFiles cfg \<le> 0" "ImageFiles cfg \<le> 0" "SubDirs cfg \<le> 0"
    and "BaseDir cfg \<noteq> []"
    and "faults E (RemoveAll (BaseDir cfg)) = None"
    and "faults E (MkdirAll (BaseDir cfg) 493) = None"
  shows "generateMockData E cfg w =
     (None, w\<lparr>trace := trace w @ [RemoveAll (BaseDir cfg), MkdirAll (BaseDir cfg) 493],
              fs := (\<lambda>q. if inside (BaseDir cfg) q then None else fs w q)
                      (BaseDir cfg \<mapsto> Dir 493)\<rparr>)"
  using assms by (simp add: generateMockData_def loops_zero prims inside_def)

text \<open>
  Claim C10.  A loop whose count is zero or negative runs no iteration: it returns the
  world it was given (and, for the subdirectory loop, no error).  When all four counts
  are zero or negative and the two calls that reset the base directory do not fail,
  \<open>generateMockData\<close> returns no error after exactly these two calls and leaves the
  base directory present, with mode 0755, and nothing below it.
\<close>

theorem nonpositive_counts_generate_nothing:
  "(TextFiles cfg \<le> 0 \<longrightarrow> text_loop E cfg 0 w = w) \<and>
   (CsvFiles cfg \<le> 0 \<longrightarrow> csv_loop E cfg 0 w = w) \<and>
   (ImageFiles cfg \<le> 0 \<longrightarrow> image_loop E cfg 0 w = w) \<and>
   (SubDirs cfg \<le> 0 \<longrightarrow> subdir_loop E cfg 0 w = (None, w)) \<and>
   (TextFiles cfg \<le> 0 \<and> CsvFiles cfg \<le> 0 \<and> ImageFiles cfg \<le> 0 \<and> SubDirs cfg \<le> 0 \<and>
    BaseDir cfg \<noteq> [] \<and> faults E (RemoveAll (BaseDir cfg)) = None \<and>
    faults E (MkdirAll (BaseDir cfg) 493) = None \<longrightarrow>
      fst (generateMockData E cfg w) = None \<and>
      trace (snd (generateMockData E cfg w))
         = trace w @ [RemoveAll (BaseDir cfg), MkdirAll (BaseDir cfg) 493] \<and>
      fs (snd (generateMockData E cfg w)) (BaseDir cfg) = Some (Dir 493) \<and>
      below (fs (snd (generateMockData E cfg w))) (BaseDir cfg) = {})"
  by (auto simp: loops_zero generate_nothing below_def)

theorem nonpositive_counts_generate_nothing_witness:
  "fst (generateMockData quiet_env
          \<lparr>BaseDir = ''../../mock_data'', TextFiles = 0, CsvFiles = - 1, ImageFiles = 0,
           SubDirs = - 3\<rparr> used_world) = None \<and>
   below (fs (snd (generateMockData quiet_env
          \<lparr>BaseDir = ''../../mock_data'', TextFiles = 0, CsvFiles = - 1, ImageFiles = 0,
           SubDirs = - 3\<rparr> used_world))) ''../../mock_data'' = {} \<and>
   csv_loop quiet_env
          \<lparr>BaseDir = ''../../mock_data'', TextFiles = 0, CsvFiles = - 1, ImageFiles = 0,
           SubDirs = - 3\<rparr> 0 used_world = used_world"
  using nonpositive_counts_generate_nothing
          [of "\<lparr>BaseDir = ''../../mock_data'', TextFiles = 0, CsvFiles = - 1, ImageFiles = 0,
                SubDirs = - 3\<rparr>" quiet_env used_world]
  by (simp add: quiet_env_def)

subsection \<open>The writers, one call at a time\<close>

lemma Join_nonempty [simp]: "b \<noteq> [] \<Longrightarrow> Join a b \<noteq> []"
  by (simp add: Join_def)

lemma subdir_path_nonempty [simp]: "subdir_path cfg i \<noteq> []"
  by (simp add: subdir_path_def)


lemma writeTextFile_counters [simp]:
  "draws (writeTextFile E p c w) = draws w" "ticks (writeTextFile E p c w) = ticks w"
  by (simp_all add: writeTextFile_def prims Let_def split: option.splits prod.splits)


lemma writeImageFile_counters [simp]:
  "draws (writeImageFile E p wd ht w) = draws w + 1" "ticks (writeImageFile E p wd ht w) = ticks w"
  by (simp_all add: writeImageFile_def prims Let_def split: option.splits prod.splits)


lemma writeImageFile_stdout:
  "stdout (writeImageFile E p wd ht w) = stdout w @
     (case faults E (OpenFile p 438) of
        Some f \<Rightarrow> [''Error creating image file '' @ p @ '': '' @ message f @ [LF]]
      | None \<Rightarrow> [])"
  by (simp add: writeImageFile_def prims Let_def split: option.splits prod.splits)

lemma writeImageFile_bytes:
  "faults E (OpenFile p 438) = None \<Longrightarrow> faults E (Write p 0) = None \<Longrightarrow>
   file_bytes (fs (writeImageFile E p wd ht w)) p
     = encode E (if Ext p = ''.png'' then PNG else JPEG)
         \<lparr>img_width = wd, img_height = ht, pixels = entropy E (draws w)\<rparr>"
  by (simp add: writeImageFile_def prims file_bytes_def append_bytes_def Let_def
        split: option.splits node.splits)

lemma writeImageFile_truncated:
  "faults E (OpenFile p 438) = None \<Longrightarrow>
   \<exists>m c. fs (writeImageFile E p wd ht w) p = Some (File m c) \<and>
     prefix c (encode E (if Ext p = ''.png'' then PNG else JPEG)
                 \<lparr>img_width = wd, img_height = ht, pixels = entropy E (draws w)\<rparr>)"
  by (auto simp add: writeImageFile_def prims Let_def append_bytes_def file_bytes_def
        take_is_prefix split: option.splits prod.splits node.splits)

subsection \<open>The CSV writer\<close>

lemma new_record_eq:
  "new_record E w =
     (record_at E (draws w) (ticks w), w\<lparr>draws := draws w + 4, ticks := ticks w + 2\<rparr>)"
  by (simp add: new_record_def record_at_def prims Let_def)

lemma file_Write_file:
  assumes "fs w f = Some (File m c)" "file_Write E f d w = (e, w')"
  shows "\<exists>c'. fs w' f = Some (File m (c @ c')) \<and> prefix c' d \<and> (e = None \<longrightarrow> c' = d)"
  using assms
  by (auto simp: prims Let_def append_bytes_def file_bytes_def take_is_prefix
        split: option.splits)

lemma file_Write_rest:
  assumes "file_Write E f d w = (e, w')"
  shows "draws w' = draws w" "ticks w' = ticks w" "stdout w' = stdout w"
    "q \<noteq> f \<Longrightarrow> fs w' q = fs w q"
  using assms
  by (auto simp: prims Let_def append_bytes_def split: option.splits node.splits)

lemma file_Write_fault_free: "fault_free E \<Longrightarrow> fst (file_Write E f d w) = None"
  by (simp add: prims Let_def fault_free_def)

lemma csv_Write_inv:
  assumes "csv_inv m cw w X" "csv_Write E cw r w = (e, cw', w')"
  shows "csv_inv m cw' w' (X @ csv_line r)"
proof (cases "werr cw")
  case (Some a)
  with assms(2) have "cw' = cw" "w' = w" by (simp_all add: csv_Write_def)
  with assms(1) Some show ?thesis by (auto simp: csv_inv_def)
next
  case None
  from assms(1) None obtain c where c: "fs w (sink cw) = Some (File m c)" "c @ pending cw = X"
    by (auto simp: csv_inv_def)
  show ?thesis
  proof (cases "length (pending cw @ csv_line r) \<le> 4096")
    case True
    then show ?thesis using assms None c by (auto simp: csv_inv_def csv_Write_def Let_def)
  next
    case False
    obtain e1 w1 where fw: "file_Write E (sink cw) (pending cw @ csv_line r) w = (e1, w1)"
      by (cases "file_Write E (sink cw) (pending cw @ csv_line r) w") auto
    from file_Write_file[OF c(1) fw] obtain c' where
      c': "fs w1 (sink cw) = Some (File m (c @ c'))" "prefix c' (pending cw @ csv_line r)"
        "e1 = None \<longrightarrow> c' = pending cw @ csv_line r"
      by blast
    show ?thesis using assms(2) None False fw c c'
      by (cases e1) (auto simp: csv_inv_def csv_Write_def Let_def)
  qed
qed

lemma csv_Write_rest:
  assumes "csv_Write E cw r w = (e, cw', w')"
  shows "sink cw' = sink cw" "draws w' = draws w" "ticks w' = ticks w" "stdout w' = stdout w"
    "q \<noteq> sink cw \<Longrightarrow> fs w' q = fs w q"
    "fault_free E \<Longrightarrow> werr cw = None \<Longrightarrow> werr cw' = None"
proof -
  obtain e1 w1 where fw: "file_Write E (sink cw) (pending cw @ csv_line r) w = (e1, w1)"
    by (cases "file_Write E (sink cw) (pending cw @ csv_line r) w") auto
  note r = file_Write_rest[OF fw]
  show "sink cw' = sink cw" "draws w' = draws w" "ticks w' = ticks w" "stdout w' = stdout w"
    using assms fw r(1-3) by (auto simp: csv_Write_def Let_def split: option.splits if_splits)
  show "q \<noteq> sink cw \<Longrightarrow> fs w' q = fs w q"
    using assms fw r(4)[of q] by (auto simp: csv_Write_def Let_def split: option.splits if_splits)
  show "fault_free E \<Longrightarrow> werr cw = None \<Longrightarrow> werr cw' = None"
    using assms fw file_Write_fault_free[of E "sink cw" "pending cw @ csv_line r" w]
    by (auto simp: csv_Write_def Let_def split: option.splits if_splits)
qed

lemma rows_loop_inv:
  assumes "csv_inv m cw w X" "rows_loop E cw i rows w = (cw', w')"
  shows "csv_inv m cw' w'
           (X @ concat (map csv_line (csv_records E (draws w) (ticks w) (nat (rows - i))))) \<and>
     sink cw' = sink cw \<and> draws w' = draws w + 4 * nat (rows - i) \<and>
     ticks w' = ticks w + 2 * nat (rows - i) \<and> stdout w' = stdout w \<and>
     (\<forall>q. q \<noteq> sink cw \<longrightarrow> fs w' q = fs w q) \<and>
     (fault_free E \<longrightarrow> werr cw = None \<longrightarrow> werr cw' = None)"
  using assms
proof (induction E cw i rows w arbitrary: X cw' w' rule: rows_loop.induct)
  case (1 E cw i rows w)
  show ?case
  proof (cases "i < rows")
    case False
    with "1.prems" show ?thesis by (simp add: rows_loop.simps)
  next
    case True
    define w1 where "w1 = w\<lparr>draws := draws w + 4, ticks := ticks w + 2\<rparr>"
    define rcd where "rcd = record_at E (draws w) (ticks w)"
    have nr: "new_record E w = (rcd, w1)" by (simp add: new_record_eq w1_def rcd_def)
    obtain e cw1 w2 where cwr: "csv_Write E cw rcd w1 = (e, cw1, w2)"
      by (cases "csv_Write E cw rcd w1") auto
    have inv1: "csv_inv m cw w1 X" using "1.prems"(1) by (simp add: csv_inv_def w1_def)
    note inv2 = csv_Write_inv[OF inv1 cwr]
    note rest = csv_Write_rest[OF cwr]
    have loop: "rows_loop E cw1 (i + 1) rows w2 = (cw', w')"
      using "1.prems"(2) True nr cwr by (simp add: rows_loop.simps[of E cw i])
    note IH = "1.IH"[OF True refl nr[symmetric] refl cwr[symmetric] refl inv2 loop]
    have n: "nat (rows - i) = Suc (nat (rows - (i + 1)))" using True by simp
    have d2: "draws w2 = draws w + 4" "ticks w2 = ticks w + 2" "stdout w2 = stdout w"
      using rest by (simp_all add: w1_def)
    have f2: "q \<noteq> sink cw \<Longrightarrow> fs w2 q = fs w q" for q
      using rest(5)[of q] by (simp add: w1_def)
    show ?thesis using IH rest(1) rest(6) d2 f2 unfolding n
      by (simp add: rcd_def)
  qed
qed

lemma csv_Flush_inv:
  assumes "csv_inv m cw w X" "csv_Flush E cw w = (cw', w')"
  shows "\<exists>c. fs w' (sink cw) = Some (File m c) \<and> prefix c X \<and>
           (fault_free E \<longrightarrow> werr cw = None \<longrightarrow> c = X)"
    "draws w' = draws w" "ticks w' = ticks w" "stdout w' = stdout w"
    "q \<noteq> sink cw \<Longrightarrow> fs w' q = fs w q"
proof -
  obtain e1 w1 where fw: "file_Write E (sink cw) (pending cw) w = (e1, w1)"
    by (cases "file_Write E (sink cw) (pending cw) w") auto
  note r = file_Write_rest[OF fw]
  show "draws w' = draws w" "ticks w' = ticks w" "stdout w' = stdout w"
    using assms(2) fw r(1-3) by (auto simp: csv_Flush_def split: option.splits if_splits)
  show "q \<noteq> sink cw \<Longrightarrow> fs w' q = fs w q"
    using assms(2) fw r(4)[of q] by (auto simp: csv_Flush_def split: option.splits if_splits)
  from assms(1) obtain c where c: "fs w (sink cw) = Some (File m c)"
    "case werr cw of None \<Rightarrow> c @ pending cw = X | Some e \<Rightarrow> prefix c X"
    by (auto simp: csv_inv_def)
  from file_Write_file[OF c(1) fw] obtain c' where
    c': "fs w1 (sink cw) = Some (File m (c @ c'))" "prefix c' (pending cw)"
      "e1 = None \<longrightarrow> c' = pending cw"
    by blast
  have ff: "fault_free E \<Longrightarrow> e1 = None"
    using file_Write_fault_free[of E "sink cw" "pending cw" w] fw by simp
  show "\<exists>c. fs w' (sink cw) = Some (File m c) \<and> prefix c X \<and>
           (fault_free E \<longrightarrow> werr cw = None \<longrightarrow> c = X)"
  proof (cases "werr cw")
    case (Some a)
    then show ?thesis using assms(2) c by (auto simp: csv_Flush_def file_bytes_def)
  next
    case None
    show ?thesis
    proof (cases "pending cw = []")
      case True
      then show ?thesis using assms(2) c None by (auto simp: csv_Flush_def file_bytes_def)
    next
      case False
      then show ?thesis using assms(2) c None fw c' ff
        by (cases e1) (auto simp: csv_Flush_def file_bytes_def)
    qed
  qed
qed


lemma writeCSVFile_created:
  assumes "faults E (OpenFile p 438) = None"
  shows "\<exists>c. fs (writeCSVFile E p rows w) p
               = Some (File (case fs w p of Some (File m0 c0) \<Rightarrow> m0 | _ \<Rightarrow> 438) c) \<and>
            prefix c (csv_text E (draws w) (ticks w) rows) \<and>
            (fault_free E \<longrightarrow> c = csv_text E (draws w) (ticks w) rows)"
    "draws (writeCSVFile E p rows w) = draws w + 4 * nat rows"
    "ticks (writeCSVFile E p rows w) = ticks w + 2 * nat rows"
    "stdout (writeCSVFile E p rows w) = stdout w"
    "q \<noteq> p \<Longrightarrow> fs (writeCSVFile E p rows w) q = fs w q"
proof -
  define m where "m = (case fs w p of Some (File m0 c0) \<Rightarrow> m0 | _ \<Rightarrow> 438)"
  define w1 where "w1 = w\<lparr>trace := trace w @ [OpenFile p 438], fs := (fs w)(p \<mapsto> File m [])\<rparr>"
  have cr: "os_Create E p w = (Inr p, w1)"
    using assms by (auto simp: prims w1_def m_def split: option.splits node.splits)
  obtain e cw1 w2 where hw: "csv_Write E (csv_NewWriter p) csv_header w1 = (e, cw1, w2)"
    by (cases "csv_Write E (csv_NewWriter p) csv_header w1") auto
  obtain cw2 w3 where rl: "rows_loop E cw1 0 rows w2 = (cw2, w3)"
    by (cases "rows_loop E cw1 0 rows w2") auto
  obtain cw3 w4 where fl: "csv_Flush E cw2 w3 = (cw3, w4)"
    by (cases "csv_Flush E cw2 w3") auto
  have res: "writeCSVFile E p rows w = snd (file_Close E p w4)"
    using cr hw rl fl by (simp add: writeCSVFile_def csv_header_def split: prod.splits)
  have inv0: "csv_inv m (csv_NewWriter p) w1 []"
    by (simp add: csv_inv_def csv_NewWriter_def w1_def)
  note inv1 = csv_Write_inv[OF inv0 hw]
  note r1 = csv_Write_rest[OF hw]
  note inv2 = rows_loop_inv[OF inv1 rl]
  have s2: "sink cw2 = p" using inv2 r1(1) by (simp add: csv_NewWriter_def)
  have inv2': "csv_inv m cw2 w3 (csv_text E (draws w) (ticks w) rows)"
    using inv2 r1(2,3) by (simp add: csv_text_def w1_def)
  note f = csv_Flush_inv[OF inv2' fl]
  have cl: "fs (snd (file_Close E p w4)) = fs w4" "draws (snd (file_Close E p w4)) = draws w4"
     "ticks (snd (file_Close E p w4)) = ticks w4" "stdout (snd (file_Close E p w4)) = stdout w4"
    by (simp_all add: prims Let_def split: option.splits)
  show "draws (writeCSVFile E p rows w) = draws w + 4 * nat rows"
    "ticks (writeCSVFile E p rows w) = ticks w + 2 * nat rows"
    "stdout (writeCSVFile E p rows w) = stdout w"
    using res cl f(2-4) inv2 r1 by (simp_all add: w1_def)
  show "q \<noteq> p \<Longrightarrow> fs (writeCSVFile E p rows w) q = fs w q"
    using res cl f(5)[of q] inv2 r1(5)[of q] s2 by (simp add: w1_def csv_NewWriter_def)
  have we: "fault_free E \<Longrightarrow> werr cw2 = None"
    using inv2 r1(6) by (simp add: csv_NewWriter_def)
  show "\<exists>c. fs (writeCSVFile E p rows w) p
               = Some (File (case fs w p of Some (File m0 c0) \<Rightarrow> m0 | _ \<Rightarrow> 438) c) \<and>
            prefix c (csv_text E (draws w) (ticks w) rows) \<and>
            (fault_free E \<longrightarrow> c = csv_text E (draws w) (ticks w) rows)"
    using res cl(1) f(1) s2 we by (auto simp: m_def)
qed

subsection \<open>The loops and the error result\<close>

lemma count_up_induct:
  assumes "\<And>i. (i < n \<Longrightarrow> P (i + 1)) \<Longrightarrow> P i"
  shows "P (i::int)"
proof (induction "nat (n - i)" arbitrary: i)
  case 0
  then show ?case using assms[of i] by simp
next
  case (Suc k)
  have "P (i + 1)" using Suc(1)[of "i + 1"] Suc(2) by simp
  then show ?case using assms[of i] by simp
qed

lemma os_MkdirAll_result:
  "p \<noteq> [] \<Longrightarrow> fst (os_MkdirAll E p m w) = map_option message (faults E (MkdirAll p m))"
  "trace (snd (os_MkdirAll E p m w)) = trace w @ [MkdirAll p m]"
  by (simp_all add: prims Let_def split: option.splits node.splits)

lemma text_loop_unfold:
  "text_loop E cfg i w =
     (if i < TextFiles cfg then
        text_loop E cfg (i + 1)
          (writeTextFile E (Join (BaseDir cfg) (''document_'' @ Sprintf_d i @ ''.txt''))
             (paragraph_src E (draws w)) (w\<lparr>draws := draws w + 1\<rparr>))
      else w)"
  by (subst text_loop.simps) (simp add: Let_def Paragraph_def)

lemma csv_loop_unfold:
  "csv_loop E cfg i w =
     (if i < CsvFiles cfg then
        csv_loop E cfg (i + 1)
          (writeCSVFile E (Join (BaseDir cfg) (''transactions_'' @ Sprintf_d i @ ''.csv'')) 100 w)
      else w)"
  by (subst csv_loop.simps) (simp add: Let_def)

lemma image_loop_unfold:
  "image_loop E cfg i w =
     (if i < ImageFiles cfg then
        image_loop E cfg (i + 1)
          (writeImageFile E (Join (BaseDir cfg) (''photo_'' @ Sprintf_d i @ ''.jpg'')) 640 480 w)
      else w)"
  by (subst image_loop.simps) (simp add: Let_def)

lemma subdir_loop_unfold:
  "subdir_loop E cfg i w =
     (if i < SubDirs cfg then
        (case os_MkdirAll E (subdir_path cfg i) 493 w of
           (Some err, w1) \<Rightarrow> (Some err, w1)
         | (None, w1) \<Rightarrow>
             subdir_loop E cfg (i + 1)
               (writeImageFile E (Join (subdir_path cfg i) ''thumb.png'') 100 100
                  (writeTextFile E (Join (subdir_path cfg i) ''secret_note.md'')
                     (phrase_src E (draws w1)) (w1\<lparr>draws := draws w1 + 1\<rparr>))))
      else (None, w))"
  by (subst subdir_loop.simps)
     (auto simp: subdir_path_def Let_def HackerPhrase_def split: prod.splits option.splits)

lemma subdir_loop_return:
  "(fst (subdir_loop E cfg i w) = None) =
     (\<forall>j. i \<le> j \<and> j < SubDirs cfg \<longrightarrow> faults E (MkdirAll (subdir_path cfg j) 493) = None)"
proof (induction i arbitrary: w rule: count_up_induct[where n = "SubDirs cfg"])
  case (1 i)
  show ?case
  proof (cases "i < SubDirs cfg")
    case False
    then show ?thesis by (subst subdir_loop_unfold) auto
  next
    case True
    obtain e w1 where mk: "os_MkdirAll E (subdir_path cfg i) 493 w = (e, w1)"
      by (cases "os_MkdirAll E (subdir_path cfg i) 493 w") auto
    have e: "e = map_option message (faults E (MkdirAll (subdir_path cfg i) 493))"
      using os_MkdirAll_result(1)[of "subdir_path cfg i" E 493 w] mk by simp
    have split:
      "(\<forall>j. i \<le> j \<and> j < SubDirs cfg \<longrightarrow> faults E (MkdirAll (subdir_path cfg j) 493) = None)
         = (faults E (MkdirAll (subdir_path cfg i) 493) = None \<and>
            (\<forall>j. i + 1 \<le> j \<and> j < SubDirs cfg \<longrightarrow>
                 faults E (MkdirAll (subdir_path cfg j) 493) = None))"
      using True by (metis add1_zle_eq order_le_less)
    show ?thesis
      unfolding split
      by (subst subdir_loop_unfold) (use True mk e "1"[OF True] in \<open>auto split: option.splits\<close>)
  qed
qed


subsection \<open>Errors: what is reported, what is returned\<close>


lemma generate_split:
  "generateMockData E cfg w =
     (if BaseDir cfg = [] then (Some ''mkdir : no such file or directory'', w\<lparr>trace := trace w @ [MkdirAll [] 493]\<rparr>)
      else case faults E (RemoveAll (BaseDir cfg)) of
        Some f \<Rightarrow> (Some (message f), w\<lparr>trace := trace w @ [RemoveAll (BaseDir cfg)],
                      fs := (\<lambda>q. if inside (BaseDir cfg) q \<and> gone E q then None else fs w q)\<rparr>)
      | None \<Rightarrow>
         (case faults E (MkdirAll (BaseDir cfg) 493) of
            Some f \<Rightarrow> (Some (message f), w\<lparr>trace := trace w @ [RemoveAll (BaseDir cfg), MkdirAll (BaseDir cfg) 493],
                      fs := (\<lambda>q. if inside (BaseDir cfg) q then None else fs w q)\<rparr>)
          | None \<Rightarrow> subdir_loop E cfg 0 (image_loop E cfg 0 (csv_loop E cfg 0 (text_loop E cfg 0
                (w\<lparr>trace := trace w @ [RemoveAll (BaseDir cfg), MkdirAll (BaseDir cfg) 493],
                      fs := (\<lambda>q. if inside (BaseDir cfg) q then None else fs w q)(BaseDir cfg \<mapsto> Dir 493)\<rparr>))))))"
  by (auto simp: generateMockData_def prims Let_def inside_def split: option.splits)

lemma generate_return:
  "(fst (generateMockData E cfg w) = None) =
     (BaseDir cfg \<noteq> [] \<and> faults E (RemoveAll (BaseDir cfg)) = None \<and>
      faults E (MkdirAll (BaseDir cfg) 493) = None \<and>
      (\<forall>j. 0 \<le> j \<and> j < SubDirs cfg \<longrightarrow> faults E (MkdirAll (subdir_path cfg j) 493) = None))"
  by (subst generate_split) (auto simp: subdir_loop_return split: option.splits)









lemma main_split:
  "main E w =
     (case generateMockData E config (Printf start_banner w) of
        (Some err, w2) \<Rightarrow> (1, Printf (''FATAL Error: '' @ err @ [LF]) w2)
      | (None, w2) \<Rightarrow> (0, Printf (''--- Generation Complete. Ready for TDD. ---'' @ [LF]) w2))"
  by (simp add: main_def start_banner_def config_def Let_def)

lemma main_exit:
  "fst (main E w) = (if fst (generateMockData E config (Printf start_banner w)) = None then 0 else 1)"
  "fst (generateMockData E config (Printf start_banner w)) = Some e \<Longrightarrow>
     stdout (snd (main E w)) \<noteq> [] \<and> last (stdout (snd (main E w))) = ''FATAL Error: '' @ e @ [LF] \<and>
     trace (snd (main E w)) = trace (snd (generateMockData E config (Printf start_banner w)))"
  by (auto simp: main_split Printf_def split: prod.splits option.splits)

lemma generate_remove_fails:
  "BaseDir cfg \<noteq> [] \<Longrightarrow> faults E (RemoveAll (BaseDir cfg)) = Some f \<Longrightarrow>
   generateMockData E cfg w =
     (Some (message f),
      w\<lparr>trace := trace w @ [RemoveAll (BaseDir cfg)],
        fs := (\<lambda>q. if inside (BaseDir cfg) q \<and> gone E q then None else fs w q)\<rparr>)"
  by (subst generate_split) simp

lemma generate_mkdir_fails:
  "BaseDir cfg \<noteq> [] \<Longrightarrow> faults E (RemoveAll (BaseDir cfg)) = None \<Longrightarrow>
   faults E (MkdirAll (BaseDir cfg) 493) = Some f \<Longrightarrow>
   generateMockData E cfg w =
     (Some (message f),
      w\<lparr>trace := trace w @ [RemoveAll (BaseDir cfg), MkdirAll (BaseDir cfg) 493],
        fs := (\<lambda>q. if inside (BaseDir cfg) q then None else fs w q)\<rparr>)"
  by (subst generate_split) simp

text \<open>
  Claim C4.  \<open>main\<close> exits with code 0 when \<open>generateMockData\<close> returns no error and
  with code 1 otherwise, after printing the error as the last line of standard output
  and without any further call.  When the removal of the base directory fails, or its
  creation after a successful removal, \<open>generateMockData\<close> returns that error at once:
  the failed call is the last one made, and the file system is left as that call left it
  (what was removed stays removed, nothing is restored or cleaned up).
\<close>

theorem exit_code_and_directory_reset_failures:
  "fst (main E w) = (if fst (generateMockData E config (Printf start_banner w)) = None then 0 else 1) \<and>
   (\<forall>e. fst (generateMockData E config (Printf start_banner w)) = Some e \<longrightarrow>
      stdout (snd (main E w)) \<noteq> [] \<and> last (stdout (snd (main E w))) = ''FATAL Error: '' @ e @ [LF] \<and>
      trace (snd (main E w)) = trace (snd (generateMockData E config (Printf start_banner w)))) \<and>
   (\<forall>f. BaseDir cfg \<noteq> [] \<and> faults E (RemoveAll (BaseDir cfg)) = Some f \<longrightarrow>
      generateMockData E cfg w =
        (Some (message f),
         w\<lparr>trace := trace w @ [RemoveAll (BaseDir cfg)],
           fs := (\<lambda>q. if inside (BaseDir cfg) q \<and> gone E q then None else fs w q)\<rparr>)) \<and>
   (\<forall>f. BaseDir cfg \<noteq> [] \<and> faults E (RemoveAll (BaseDir cfg)) = None \<and>
        faults E (MkdirAll (BaseDir cfg) 493) = Some f \<longrightarrow>
      generateMockData E cfg w =
        (Some (message f),
         w\<lparr>trace := trace w @ [RemoveAll (BaseDir cfg), MkdirAll (BaseDir cfg) 493],
           fs := (\<lambda>q. if inside (BaseDir cfg) q then None else fs w q)\<rparr>))"
  using main_exit(2)[of E w]
  by (simp add: main_exit(1) generate_remove_fails generate_mkdir_fails)

theorem exit_code_and_directory_reset_failures_witness:
  "fst (main locked_env used_world) = 1 \<and>
   last (stdout (snd (main locked_env used_world))) = ''FATAL Error: permission denied'' @ [LF] \<and>
   trace (snd (main locked_env used_world)) = [RemoveAll ''../../mock_data''] \<and>
   fs (snd (generateMockData locked_env config used_world)) = fs used_world"
proof -
  have b: "BaseDir config \<noteq> []"
    "faults locked_env (RemoveAll (BaseDir config)) = Some (Fault ''permission denied'' 0)"
    "gone locked_env = (\<lambda>q. False)"
    by (simp_all add: config_def locked_env_def quiet_env_def)
  have g: "generateMockData locked_env config w =
        (Some (message (Fault ''permission denied'' 0)),
         w\<lparr>trace := trace w @ [RemoveAll (BaseDir config)],
           fs := (\<lambda>q. if inside (BaseDir config) q \<and> gone locked_env q then None else fs w q)\<rparr>)" for w
    using exit_code_and_directory_reset_failures[of locked_env w config] b(1,2) by blast
  have m: "fst (main locked_env used_world) = 1"
     "last (stdout (snd (main locked_env used_world))) = ''FATAL Error: permission denied'' @ [LF]"
     "trace (snd (main locked_env used_world)) = trace (snd (generateMockData locked_env config (Printf start_banner used_world)))"
    using exit_code_and_directory_reset_failures[of locked_env used_world config]
    by (simp_all add: g)
  have t: "trace (snd (generateMockData locked_env config (Printf start_banner used_world)))
             = [RemoveAll ''../../mock_data'']"
    unfolding g by (simp add: Printf_def used_world_def config_def)
  have f: "fs (snd (generateMockData locked_env config used_world)) = fs used_world"
    unfolding g by (simp add: b(3))
  show ?thesis using m t f by simp
qed

lemma generate_ignores_file_faults:
  "BaseDir cfg \<noteq> [] \<Longrightarrow> (\<forall>p m. faults E (RemoveAll p) = None \<and> faults E (MkdirAll p m) = None) \<Longrightarrow>
     fst (generateMockData E cfg w) = None"
  by (simp add: generate_return)

text \<open>
  Claim C8.  Once the file has been created, \<open>writeImageFile\<close> and \<open>writeCSVFile\<close>
  print nothing, whatever fails afterwards (encoding, writing a record or the header,
  flushing, closing): the file exists and holds a prefix, possibly empty, of the bytes a
  run without failures writes.  Such failures do not reach the error result: when no
  directory call fails, \<open>generateMockData\<close> returns nil and \<open>main\<close> exits with code 0.
\<close>

theorem encode_and_csv_write_errors_dropped:
  "(faults E (OpenFile p 438) = None \<longrightarrow>
      stdout (writeImageFile E p wd ht w) = stdout w \<and>
      (\<exists>m c. fs (writeImageFile E p wd ht w) p = Some (File m c) \<and>
         prefix c (encode E (if Ext p = ''.png'' then PNG else JPEG)
                     \<lparr>img_width = wd, img_height = ht, pixels = entropy E (draws w)\<rparr>))) \<and>
   (faults E (OpenFile p 438) = None \<longrightarrow>
      stdout (writeCSVFile E p rows w) = stdout w \<and>
      (\<exists>m c. fs (writeCSVFile E p rows w) p = Some (File m c) \<and>
         prefix c (csv_text E (draws w) (ticks w) rows))) \<and>
   (BaseDir cfg \<noteq> [] \<and> (\<forall>q m. faults E (RemoveAll q) = None \<and> faults E (MkdirAll q m) = None) \<longrightarrow>
      fst (generateMockData E cfg w) = None) \<and>
   ((\<forall>q m. faults E (RemoveAll q) = None \<and> faults E (MkdirAll q m) = None) \<longrightarrow>
      fst (main E w) = 0)"
proof -
  have a: "faults E (OpenFile p 438) = None \<Longrightarrow> \<exists>m c. fs (writeCSVFile E p rows w) p = Some (File m c) \<and>
         prefix c (csv_text E (draws w) (ticks w) rows)"
    using writeCSVFile_created(1)[of E p rows w] by blast
  have b: "(\<forall>q m. faults E (RemoveAll q) = None \<and> faults E (MkdirAll q m) = None) \<Longrightarrow> fst (main E w) = 0"
    using generate_ignores_file_faults[of config E "Printf start_banner w"]
    by (simp add: main_exit(1) config_def)
  show ?thesis
    using a b writeImageFile_truncated[of E p wd ht w]
    by (simp add: writeImageFile_stdout writeCSVFile_created(4) generate_ignores_file_faults)
qed

theorem encode_and_csv_write_errors_dropped_witness:
  "stdout (writeImageFile full_disk_env ''thumb.png'' 100 100 used_world) = stdout used_world \<and>
   fs (writeImageFile full_disk_env ''thumb.png'' 100 100 used_world) ''thumb.png'' = Some (File 438 []) \<and>
   stdout (writeCSVFile full_disk_env ''t.csv'' 100 used_world) = stdout used_world \<and>
   (\<exists>m c. fs (writeCSVFile full_disk_env ''t.csv'' 100 used_world) ''t.csv'' = Some (File m c) \<and>
      prefix c (csv_text full_disk_env (draws used_world) (ticks used_world) 100)) \<and>
   fst (main full_disk_env used_world) = 0"
proof -
  have f: "\<forall>q m. faults full_disk_env (RemoveAll q) = None \<and> faults full_disk_env (MkdirAll q m) = None"
      "faults full_disk_env (OpenFile ''thumb.png'' 438) = None"
      "faults full_disk_env (OpenFile ''t.csv'' 438) = None"
    by (simp_all add: full_disk_env_def)
  have i: "fs (writeImageFile full_disk_env ''thumb.png'' 100 100 used_world) ''thumb.png'' = Some (File 438 [])"
    by (simp add: writeImageFile_def prims full_disk_env_def used_world_def Let_def file_bytes_def append_bytes_def)
  from encode_and_csv_write_errors_dropped[of full_disk_env "''thumb.png''" 100 100 used_world 100 config] f
  have 1: "stdout (writeImageFile full_disk_env ''thumb.png'' 100 100 used_world) = stdout used_world"
     "fst (main full_disk_env used_world) = 0" by blast+
  from encode_and_csv_write_errors_dropped[of full_disk_env "''t.csv''" 100 100 used_world 100 config] f
  have 2: "stdout (writeCSVFile full_disk_env ''t.csv'' 100 used_world) = stdout used_world"
     "\<exists>m c. fs (writeCSVFile full_disk_env ''t.csv'' 100 used_world) ''t.csv'' = Some (File m c) \<and>
      prefix c (csv_text full_disk_env (draws used_world) (ticks used_world) 100)" by blast+
  show ?thesis using 1 2 i by blast
qed

subsection \<open>A run in which nothing fails, for the counts of \<open>config\<close>\<close>

lemma Sprintf_d_small:
  "Sprintf_d 0 = ''0''" "Sprintf_d 1 = ''1''" "Sprintf_d 2 = ''2''" "Sprintf_d 3 = ''3''" "Sprintf_d 4 = ''4''"
  by code_simp+

lemma inside_self_append [simp]: "inside d (d @ CHR ''/'' # s)"
  by (simp add: inside_def)

lemma ff_text_fs:
  "fault_free E \<Longrightarrow> fs w p = None \<Longrightarrow> fs (writeTextFile E p c w) = (fs w)(p \<mapsto> File 420 c)"
  by (simp add: fault_free_def writeTextFile_def prims Let_def append_bytes_def file_bytes_def)

lemma ff_image_fs:
  "fault_free E \<Longrightarrow> fs w p = None \<Longrightarrow> fs (writeImageFile E p wd ht w) =
    (fs w)(p \<mapsto> File 438 (encode E (if Ext p = ''.png'' then PNG else JPEG)
        \<lparr>img_width = wd, img_height = ht, pixels = entropy E (draws w)\<rparr>))"
  by (simp add: fault_free_def writeImageFile_def prims Let_def append_bytes_def file_bytes_def)

lemma ff_csv:
  assumes "fault_free E"
  shows "fs w p = None \<Longrightarrow> fs (writeCSVFile E p rows w) = (fs w)(p \<mapsto> File 438 (csv_text E (draws w) (ticks w) rows))"
    "draws (writeCSVFile E p rows w) = draws w + 4 * nat rows"
    "ticks (writeCSVFile E p rows w) = ticks w + 2 * nat rows"
proof -
  have o: "faults E (OpenFile p 438) = None" using assms by (simp add: fault_free_def)
  note c = writeCSVFile_created[OF o, where rows = rows and w = w]
  show "draws (writeCSVFile E p rows w) = draws w + 4 * nat rows"
    "ticks (writeCSVFile E p rows w) = ticks w + 2 * nat rows" by (fact c)+
  show "fs (writeCSVFile E p rows w) = (fs w)(p \<mapsto> File 438 (csv_text E (draws w) (ticks w) rows))" if "fs w p = None"
  proof
    fix q show "fs (writeCSVFile E p rows w) q = ((fs w)(p \<mapsto> File 438 (csv_text E (draws w) (ticks w) rows))) q"
      using c(1) c(5)[of q] assms that by (cases "q = p") auto
  qed
qed

lemma ff_mkdir:
  "fault_free E \<Longrightarrow> p \<noteq> [] \<Longrightarrow> fs w p = None \<Longrightarrow>
     os_MkdirAll E p m w = (None, w\<lparr>trace := trace w @ [MkdirAll p m], fs := (fs w)(p \<mapsto> Dir m)\<rparr>)"
  by (simp add: fault_free_def prims Let_def)

lemma text_loop_5:
  assumes "fault_free E" "TextFiles cfg = 5" "BaseDir cfg \<noteq> []"
    "\<And>s. fs w (BaseDir cfg @ CHR ''/'' # s) = None"
  shows "fs (text_loop E cfg 0 w) = (fs w)
      (BaseDir cfg @ ''/document_0.txt'' \<mapsto> File 420 (paragraph_src E (draws w)),
       BaseDir cfg @ ''/document_1.txt'' \<mapsto> File 420 (paragraph_src E (draws w + 1)),
       BaseDir cfg @ ''/document_2.txt'' \<mapsto> File 420 (paragraph_src E (draws w + 2)),
       BaseDir cfg @ ''/document_3.txt'' \<mapsto> File 420 (paragraph_src E (draws w + 3)),
       BaseDir cfg @ ''/document_4.txt'' \<mapsto> File 420 (paragraph_src E (draws w + 4)))"
   "draws (text_loop E cfg 0 w) = draws w + 5" "ticks (text_loop E cfg 0 w) = ticks w"
proof -
  have j: "Join (BaseDir cfg) s = BaseDir cfg @ CHR ''/'' # s" if "s \<noteq> []" for s
    using assms(3) that by (simp add: Join_def)
  show "fs (text_loop E cfg 0 w) = (fs w)
      (BaseDir cfg @ ''/document_0.txt'' \<mapsto> File 420 (paragraph_src E (draws w)),
       BaseDir cfg @ ''/document_1.txt'' \<mapsto> File 420 (paragraph_src E (draws w + 1)),
       BaseDir cfg @ ''/document_2.txt'' \<mapsto> File 420 (paragraph_src E (draws w + 2)),
       BaseDir cfg @ ''/document_3.txt'' \<mapsto> File 420 (paragraph_src E (draws w + 3)),
       BaseDir cfg @ ''/document_4.txt'' \<mapsto> File 420 (paragraph_src E (draws w + 4)))"
    using assms(2,4)
    apply (subst text_loop_unfold, simp add: Sprintf_d_small j ff_text_fs[OF assms(1)])+
    apply ((simp add: eval_nat_numeral)?)
    done
  show "draws (text_loop E cfg 0 w) = draws w + 5" "ticks (text_loop E cfg 0 w) = ticks w"
    using assms(2) by ((subst text_loop_unfold, simp)+)+
qed

lemma Join_base: "b \<noteq> [] \<Longrightarrow> s \<noteq> [] \<Longrightarrow> Join b s = b @ CHR ''/'' # s"
  by (simp add: Join_def)

lemma csv_loop_2:
  assumes "fault_free E" "CsvFiles cfg = 2" "BaseDir cfg \<noteq> []"
    "fs w (BaseDir cfg @ ''/transactions_0.csv'') = None"
    "fs w (BaseDir cfg @ ''/transactions_1.csv'') = None"
  shows "fs (csv_loop E cfg 0 w) = (fs w)
      (BaseDir cfg @ ''/transactions_0.csv'' \<mapsto> File 438 (csv_text E (draws w) (ticks w) 100),
       BaseDir cfg @ ''/transactions_1.csv'' \<mapsto> File 438 (csv_text E (draws w + 400) (ticks w + 200) 100))"
   "draws (csv_loop E cfg 0 w) = draws w + 800" "ticks (csv_loop E cfg 0 w) = ticks w + 400"
  using assms(2,4,5)
  by ((subst csv_loop_unfold, simp add: Sprintf_d_small Join_base[OF assms(3)] ff_csv[OF assms(1)])+)+

lemma image_loop_3:
  assumes "fault_free E" "ImageFiles cfg = 3" "BaseDir cfg \<noteq> []"
    "fs w (BaseDir cfg @ ''/photo_0.jpg'') = None"
    "fs w (BaseDir cfg @ ''/photo_1.jpg'') = None"
    "fs w (BaseDir cfg @ ''/photo_2.jpg'') = None"
  shows "fs (image_loop E cfg 0 w) = (fs w)
      (BaseDir cfg @ ''/photo_0.jpg'' \<mapsto> File 438 (encode E JPEG \<lparr>img_width = 640, img_height = 480, pixels = entropy E (draws w)\<rparr>),
       BaseDir cfg @ ''/photo_1.jpg'' \<mapsto> File 438 (encode E JPEG \<lparr>img_width = 640, img_height = 480, pixels = entropy E (draws w + 1)\<rparr>),
       BaseDir cfg @ ''/photo_2.jpg'' \<mapsto> File 438 (encode E JPEG \<lparr>img_width = 640, img_height = 480, pixels = entropy E (draws w + 2)\<rparr>))"
   "draws (image_loop E cfg 0 w) = draws w + 3" "ticks (image_loop E cfg 0 w) = ticks w"
proof -
  have e: "Ext (BaseDir cfg @ CHR ''/'' # ''photo_'' @ Sprintf_d i @ ''.jpg'') = ''.jpg''" for i
    using Ext_photo[of "BaseDir cfg" i] assms(3) by (simp add: Join_def)
  show "fs (image_loop E cfg 0 w) = (fs w)
      (BaseDir cfg @ ''/photo_0.jpg'' \<mapsto> File 438 (encode E JPEG \<lparr>img_width = 640, img_height = 480, pixels = entropy E (draws w)\<rparr>),
       BaseDir cfg @ ''/photo_1.jpg'' \<mapsto> File 438 (encode E JPEG \<lparr>img_width = 640, img_height = 480, pixels = entropy E (draws w + 1)\<rparr>),
       BaseDir cfg @ ''/photo_2.jpg'' \<mapsto> File 438 (encode E JPEG \<lparr>img_width = 640, img_height = 480, pixels = entropy E (draws w + 2)\<rparr>))"
    using assms(2,4,5,6) e[of 0] e[of 1] e[of 2]
    apply (subst image_loop_unfold, simp add: Sprintf_d_small Join_base[OF assms(3)] ff_image_fs[OF assms(1)])+
    apply ((simp add: eval_nat_numeral)?)
    done
  show "draws (image_loop E cfg 0 w) = draws w + 3" "ticks (image_loop E cfg 0 w) = ticks w"
    using assms(2) by ((subst image_loop_unfold, simp)+)+
qed

lemma subdir_loop_2:
  assumes "fault_free E" "SubDirs cfg = 2" "BaseDir cfg \<noteq> []"
    "fs w (BaseDir cfg @ ''/internal_data_0'') = None"
    "fs w (BaseDir cfg @ ''/internal_data_0/secret_note.md'') = None"
    "fs w (BaseDir cfg @ ''/internal_data_0/thumb.png'') = None"
    "fs w (BaseDir cfg @ ''/internal_data_1'') = None"
    "fs w (BaseDir cfg @ ''/internal_data_1/secret_note.md'') = None"
    "fs w (BaseDir cfg @ ''/internal_data_1/thumb.png'') = None"
  shows "fst (subdir_loop E cfg 0 w) = None"
   "fs (snd (subdir_loop E cfg 0 w)) = (fs w)
      (BaseDir cfg @ ''/internal_data_0'' \<mapsto> Dir 493,
       BaseDir cfg @ ''/internal_data_0/secret_note.md'' \<mapsto> File 420 (phrase_src E (draws w)),
       BaseDir cfg @ ''/internal_data_0/thumb.png'' \<mapsto> File 438 (encode E PNG \<lparr>img_width = 100, img_height = 100, pixels = entropy E (draws w + 1)\<rparr>),
       BaseDir cfg @ ''/internal_data_1'' \<mapsto> Dir 493,
       BaseDir cfg @ ''/internal_data_1/secret_note.md'' \<mapsto> File 420 (phrase_src E (draws w + 2)),
       BaseDir cfg @ ''/internal_data_1/thumb.png'' \<mapsto> File 438 (encode E PNG \<lparr>img_width = 100, img_height = 100, pixels = entropy E (draws w + 3)\<rparr>))"
proof -
  have sp: "subdir_path cfg 0 = BaseDir cfg @ ''/internal_data_0''" "subdir_path cfg 1 = BaseDir cfg @ ''/internal_data_1''"
    using assms(3) by (simp_all add: subdir_path_def Join_def Sprintf_d_small)
  have j: "Join (BaseDir cfg @ ''/internal_data_0'') ''secret_note.md'' = BaseDir cfg @ ''/internal_data_0/secret_note.md''"
    "Join (BaseDir cfg @ ''/internal_data_1'') ''secret_note.md'' = BaseDir cfg @ ''/internal_data_1/secret_note.md''"
    "Join (BaseDir cfg @ ''/internal_data_0'') ''thumb.png'' = BaseDir cfg @ ''/internal_data_0/thumb.png''"
    "Join (BaseDir cfg @ ''/internal_data_1'') ''thumb.png'' = BaseDir cfg @ ''/internal_data_1/thumb.png''"
    by (simp_all add: Join_def)
  have e: "Ext (BaseDir cfg @ ''/internal_data_0/thumb.png'') = ''.png''"
     "Ext (BaseDir cfg @ ''/internal_data_1/thumb.png'') = ''.png''"
    using Ext_thumb[of "BaseDir cfg @ ''/internal_data_0''"] Ext_thumb[of "BaseDir cfg @ ''/internal_data_1''"]
    by (simp_all add: j)
  show "fst (subdir_loop E cfg 0 w) = None"
    using assms(1) by (simp add: subdir_loop_return fault_free_def)
  show "fs (snd (subdir_loop E cfg 0 w)) = (fs w)
      (BaseDir cfg @ ''/internal_data_0'' \<mapsto> Dir 493,
       BaseDir cfg @ ''/internal_data_0/secret_note.md'' \<mapsto> File 420 (phrase_src E (draws w)),
       BaseDir cfg @ ''/internal_data_0/thumb.png'' \<mapsto> File 438 (encode E PNG \<lparr>img_width = 100, img_height = 100, pixels = entropy E (draws w + 1)\<rparr>),
       BaseDir cfg @ ''/internal_data_1'' \<mapsto> Dir 493,
       BaseDir cfg @ ''/internal_data_1/secret_note.md'' \<mapsto> File 420 (phrase_src E (draws w + 2)),
       BaseDir cfg @ ''/internal_data_1/thumb.png'' \<mapsto> File 438 (encode E PNG \<lparr>img_width = 100, img_height = 100, pixels = entropy E (draws w + 3)\<rparr>))"
    using assms(2,4-9)
    apply (subst subdir_loop_unfold, simp add: sp j e ff_mkdir[OF assms(1)] ff_text_fs[OF assms(1)] ff_image_fs[OF assms(1)])+
    apply ((simp add: eval_nat_numeral)?)
    done
qed

lemma fixed_run:
  assumes "fault_free E" "BaseDir cfg \<noteq> []"
    "TextFiles cfg = 5" "CsvFiles cfg = 2" "ImageFiles cfg = 3" "SubDirs cfg = 2"
  shows "fst (generateMockData E cfg w) = None"
   "fs (snd (generateMockData E cfg w)) =
      (\<lambda>q. if inside (BaseDir cfg) q then None else fs w q)
      (BaseDir cfg \<mapsto> Dir 493,
       BaseDir cfg @ ''/document_0.txt'' \<mapsto> File 420 (paragraph_src E (draws w)),
       BaseDir cfg @ ''/document_1.txt'' \<mapsto> File 420 (paragraph_src E (draws w + 1)),
       BaseDir cfg @ ''/document_2.txt'' \<mapsto> File 420 (paragraph_src E (draws w + 2)),
       BaseDir cfg @ ''/document_3.txt'' \<mapsto> File 420 (paragraph_src E (draws w + 3)),
       BaseDir cfg @ ''/document_4.txt'' \<mapsto> File 420 (paragraph_src E (draws w + 4)),
       BaseDir cfg @ ''/transactions_0.csv'' \<mapsto> File 438 (csv_text E (draws w + 5) (ticks w) 100),
       BaseDir cfg @ ''/transactions_1.csv'' \<mapsto> File 438 (csv_text E (draws w + 405) (ticks w + 200) 100),
       BaseDir cfg @ ''/photo_0.jpg'' \<mapsto> File 438 (encode E JPEG \<lparr>img_width = 640, img_height = 480, pixels = entropy E (draws w + 805)\<rparr>),
       BaseDir cfg @ ''/photo_1.jpg'' \<mapsto> File 438 (encode E JPEG \<lparr>img_width = 640, img_height = 480, pixels = entropy E (draws w + 806)\<rparr>),
       BaseDir cfg @ ''/photo_2.jpg'' \<mapsto> File 438 (encode E JPEG \<lparr>img_width = 640, img_height = 480, pixels = entropy E (draws w + 807)\<rparr>),
       BaseDir cfg @ ''/internal_data_0'' \<mapsto> Dir 493,
       BaseDir cfg @ ''/internal_data_0/secret_note.md'' \<mapsto> File 420 (phrase_src E (draws w + 808)),
       BaseDir cfg @ ''/internal_data_0/thumb.png'' \<mapsto> File 438 (encode E PNG \<lparr>img_width = 100, img_height = 100, pixels = entropy E (draws w + 809)\<rparr>),
       BaseDir cfg @ ''/internal_data_1'' \<mapsto> Dir 493,
       BaseDir cfg @ ''/internal_data_1/secret_note.md'' \<mapsto> File 420 (phrase_src E (draws w + 810)),
       BaseDir cfg @ ''/internal_data_1/thumb.png'' \<mapsto> File 438 (encode E PNG \<lparr>img_width = 100, img_height = 100, pixels = entropy E (draws w + 811)\<rparr>))"
    (is "_ = ?F")
proof -
  define w2 where "w2 = w\<lparr>trace := trace w @ [RemoveAll (BaseDir cfg), MkdirAll (BaseDir cfg) 493],
                      fs := (\<lambda>q. if inside (BaseDir cfg) q then None else fs w q)(BaseDir cfg \<mapsto> Dir 493)\<rparr>"
  define w3 where "w3 = text_loop E cfg 0 w2"
  define w4 where "w4 = csv_loop E cfg 0 w3"
  define w5 where "w5 = image_loop E cfg 0 w4"
  have g: "generateMockData E cfg w = subdir_loop E cfg 0 w5"
    using assms(1,2) by (subst generate_split) (simp add: fault_free_def w2_def w3_def w4_def w5_def)
  have f2: "fs w2 (BaseDir cfg @ CHR ''/'' # s) = None" for s by (simp add: w2_def)
  note t = text_loop_5[OF assms(1,3,2), of w2, OF f2, folded w3_def]
  have c: "fs w4 = (fs w3)
      (BaseDir cfg @ ''/transactions_0.csv'' \<mapsto> File 438 (csv_text E (draws w3) (ticks w3) 100),
       BaseDir cfg @ ''/transactions_1.csv'' \<mapsto> File 438 (csv_text E (draws w3 + 400) (ticks w3 + 200) 100))"
   "draws w4 = draws w3 + 800" "ticks w4 = ticks w3 + 400"
    unfolding w4_def by (rule csv_loop_2[OF assms(1,4,2)]; simp add: t(1) f2)+
  have i: "fs w5 = (fs w4)
      (BaseDir cfg @ ''/photo_0.jpg'' \<mapsto> File 438 (encode E JPEG \<lparr>img_width = 640, img_height = 480, pixels = entropy E (draws w4)\<rparr>),
       BaseDir cfg @ ''/photo_1.jpg'' \<mapsto> File 438 (encode E JPEG \<lparr>img_width = 640, img_height = 480, pixels = entropy E (draws w4 + 1)\<rparr>),
       BaseDir cfg @ ''/photo_2.jpg'' \<mapsto> File 438 (encode E JPEG \<lparr>img_width = 640, img_height = 480, pixels = entropy E (draws w4 + 2)\<rparr>))"
   "draws w5 = draws w4 + 3" "ticks w5 = ticks w4"
    unfolding w5_def by (rule image_loop_3[OF assms(1,5,2)]; simp add: c(1) t(1) f2)+
  note s = subdir_loop_2[OF assms(1,6,2), of w5]
  show "fst (generateMockData E cfg w) = None"
    unfolding g using assms(1) by (simp add: subdir_loop_return fault_free_def)
  have s2: "fs (snd (subdir_loop E cfg 0 w5)) = (fs w5)
      (BaseDir cfg @ ''/internal_data_0'' \<mapsto> Dir 493,
       BaseDir cfg @ ''/internal_data_0/secret_note.md'' \<mapsto> File 420 (phrase_src E (draws w5)),
       BaseDir cfg @ ''/internal_data_0/thumb.png'' \<mapsto> File 438 (encode E PNG \<lparr>img_width = 100, img_height = 100, pixels = entropy E (draws w5 + 1)\<rparr>),
       BaseDir cfg @ ''/internal_data_1'' \<mapsto> Dir 493,
       BaseDir cfg @ ''/internal_data_1/secret_note.md'' \<mapsto> File 420 (phrase_src E (draws w5 + 2)),
       BaseDir cfg @ ''/internal_data_1/thumb.png'' \<mapsto> File 438 (encode E PNG \<lparr>img_width = 100, img_height = 100, pixels = entropy E (draws w5 + 3)\<rparr>))"
    by (rule s(2); simp add: i(1) c(1) t(1) f2)
  have d: "draws w5 = draws w + 808" "draws w4 = draws w + 805" "draws w3 = draws w + 5" "ticks w3 = ticks w"
    "draws w2 = draws w" "ticks w2 = ticks w"
    by (simp_all add: i c t w2_def)
  show "fs (snd (generateMockData E cfg w)) = ?F"
    unfolding g s2 i(1) c(1) t(1) d by (simp add: w2_def add.commute)
qed








lemma inside_refl [simp]: "inside d d" by (simp add: inside_def)




text \<open>
  Claim C9.  When the file can be created and written, the bytes \<open>writeImageFile\<close> leaves
  in it are the PNG encoding of the generated image if the extension of the path is
  \<open>.png\<close>, and its JPEG encoding for every other path; the image has the width and
  height the caller passed.  The extension of a \<open>photo_i.jpg\<close> path is \<open>.jpg\<close> and that of
  a \<open>thumb.png\<close> path is \<open>.png\<close>; \<open>.jpeg\<close>, \<open>.PNG\<close> and the empty extension are not
  \<open>.png\<close>.  In a run of the counts of \<open>config\<close> in which nothing fails, the photos are
  JPEG encodings of 640 x 480 images and the thumbnails PNG encodings of 100 x 100
  images.
\<close>

theorem image_format_follows_extension:
  "(faults E (OpenFile p 438) = None \<and> faults E (Write p 0) = None \<longrightarrow>
      file_bytes (fs (writeImageFile E p wd ht w)) p
        = encode E (if Ext p = ''.png'' then PNG else JPEG)
            \<lparr>img_width = wd, img_height = ht, pixels = entropy E (draws w)\<rparr>) \<and>
   Ext (Join d (''photo_'' @ Sprintf_d i @ ''.jpg'')) = ''.jpg'' \<and>
   Ext (Join d ''thumb.png'') = ''.png'' \<and>
   Ext ''shot.jpeg'' = ''.jpeg'' \<and> Ext ''shot.PNG'' = ''.PNG'' \<and> Ext ''shot'' = [] \<and>
   Ext ''v1.png/shot'' = [] \<and>
   (fault_free E \<and> BaseDir cfg \<noteq> [] \<and> TextFiles cfg = 5 \<and> CsvFiles cfg = 2 \<and>
    ImageFiles cfg = 3 \<and> SubDirs cfg = 2 \<longrightarrow>
      fs (snd (generateMockData E cfg w)) (BaseDir cfg @ ''/photo_0.jpg'')
        = Some (File 438 (encode E JPEG
            \<lparr>img_width = 640, img_height = 480, pixels = entropy E (draws w + 805)\<rparr>)) \<and>
      fs (snd (generateMockData E cfg w)) (BaseDir cfg @ ''/photo_1.jpg'')
        = Some (File 438 (encode E JPEG
            \<lparr>img_width = 640, img_height = 480, pixels = entropy E (draws w + 806)\<rparr>)) \<and>
      fs (snd (generateMockData E cfg w)) (BaseDir cfg @ ''/photo_2.jpg'')
        = Some (File 438 (encode E JPEG
            \<lparr>img_width = 640, img_height = 480, pixels = entropy E (draws w + 807)\<rparr>)) \<and>
      fs (snd (generateMockData E cfg w)) (BaseDir cfg @ ''/internal_data_0/thumb.png'')
        = Some (File 438 (encode E PNG
            \<lparr>img_width = 100, img_height = 100, pixels = entropy E (draws w + 809)\<rparr>)) \<and>
      fs (snd (generateMockData E cfg w)) (BaseDir cfg @ ''/internal_data_1/thumb.png'')
        = Some (File 438 (encode E PNG
            \<lparr>img_width = 100, img_height = 100, pixels = entropy E (draws w + 811)\<rparr>)))"
proof -
  have e: "Ext ''shot.jpeg'' = ''.jpeg''" "Ext ''shot.PNG'' = ''.PNG''" "Ext ''shot'' = []"
    "Ext ''v1.png/shot'' = []"
    by (simp_all add: Ext_def)
  show ?thesis
    using Ext_photo[of d i] Ext_thumb[of d]
    by (simp add: writeImageFile_bytes e fixed_run(2))
qed

theorem image_format_follows_extension_witness:
  "file_bytes (fs (writeImageFile quiet_env ''a/thumb.png'' 100 100 used_world)) ''a/thumb.png''
     = ''png'' \<and>
   file_bytes (fs (writeImageFile quiet_env ''a/photo_0.jpg'' 640 480 used_world)) ''a/photo_0.jpg''
     = ''jpeg'' \<and>
   file_bytes (fs (writeImageFile quiet_env ''a/photo_0.jpeg'' 640 480 used_world)) ''a/photo_0.jpeg''
     = ''jpeg'' \<and>
   fs (snd (generateMockData quiet_env config used_world)) ''../../mock_data/photo_0.jpg''
     = Some (File 438 ''jpeg'')"
proof -
  have h: "fault_free quiet_env" "BaseDir config \<noteq> []" "TextFiles config = 5"
    "CsvFiles config = 2" "ImageFiles config = 3" "SubDirs config = 2"
    "BaseDir config = ''../../mock_data''"
    by (simp_all add: fault_free_def quiet_env_def config_def)
  have x: "Ext ''a/thumb.png'' = ''.png''" "Ext ''a/photo_0.jpg'' = ''.jpg''"
    "Ext ''a/photo_0.jpeg'' = ''.jpeg''"
    by (simp_all add: Ext_def)
  have q: "faults quiet_env c = None" "encode quiet_env PNG img = ''png''"
    "encode quiet_env JPEG img = ''jpeg''" for c img
    by (simp_all add: quiet_env_def)
  show ?thesis
    using image_format_follows_extension[of quiet_env "''a/thumb.png''" 100 100 used_world _ _ config]
      image_format_follows_extension[of quiet_env "''a/photo_0.jpg''" 640 480 used_world _ _ config]
      image_format_follows_extension[of quiet_env "''a/photo_0.jpeg''" 640 480 used_world _ _ config]
    unfolding h(7) by (simp add: h(1-6) x q)
qed

subsection \<open>What a run leaves below the base directory does not depend on the disk before\<close>

lemma sim_MkdirAll:
  assumes "sim d wa wb" "inside d p"
  shows "fst (os_MkdirAll E p m wa) = fst (os_MkdirAll E p m wb)"
    "sim d (snd (os_MkdirAll E p m wa)) (snd (os_MkdirAll E p m wb))"
  using assms by (auto simp: sim_def prims Let_def split: option.splits node.splits)

lemma sim_OpenFile:
  assumes "sim d wa wb" "inside d p"
  shows "fst (os_OpenFile E p m wa) = fst (os_OpenFile E p m wb)"
    "sim d (snd (os_OpenFile E p m wa)) (snd (os_OpenFile E p m wb))"
  using assms by (auto simp: sim_def prims Let_def split: option.splits node.splits)

lemma sim_Write:
  assumes "sim d wa wb" "inside d p"
  shows "fst (file_Write E p x wa) = fst (file_Write E p x wb)"
    "sim d (snd (file_Write E p x wa)) (snd (file_Write E p x wb))"
proof -
  have e: "fs wa p = fs wb p" using assms by (simp add: sim_def)
  then have b: "file_bytes (fs wa) p = file_bytes (fs wb) p" by (simp add: file_bytes_def)
  show "fst (file_Write E p x wa) = fst (file_Write E p x wb)"
    by (simp add: file_Write_def Let_def b split: option.splits)
  show "sim d (snd (file_Write E p x wa)) (snd (file_Write E p x wb))"
    using assms(1) e by (auto simp: sim_def file_Write_def Let_def b append_bytes_def split: option.splits node.splits)
qed

lemma sim_Close:
  assumes "sim d wa wb"
  shows "fst (file_Close E p wa) = fst (file_Close E p wb)"
    "sim d (snd (file_Close E p wa)) (snd (file_Close E p wb))"
  using assms by (auto simp: sim_def prims Let_def split: option.splits)

lemma sim_Printf: "sim d wa wb \<Longrightarrow> sim d (Printf s wa) (Printf s wb)"
  by (simp add: sim_def Printf_def)

lemma sim_draws: "sim d wa wb \<Longrightarrow> sim d (wa\<lparr>draws := draws wa + k\<rparr>) (wb\<lparr>draws := draws wb + k\<rparr>)"
  by (simp add: sim_def)

lemma sim_counters: "sim d wa wb \<Longrightarrow> draws wa = draws wb" "sim d wa wb \<Longrightarrow> ticks wa = ticks wb"
  by (simp_all add: sim_def)

lemma os_OpenFile_handle: "os_OpenFile E p m w = (Inr f, w1) \<Longrightarrow> f = p"
  by (auto simp: prims Let_def split: option.splits)

lemma sim_WriteFile:
  assumes "sim d wa wb" "inside d p"
  shows "fst (os_WriteFile E p c m wa) = fst (os_WriteFile E p c m wb) \<and>
    sim d (snd (os_WriteFile E p c m wa)) (snd (os_WriteFile E p c m wb))"
proof -
  obtain r wa1 where oa: "os_OpenFile E p m wa = (r, wa1)" by (cases "os_OpenFile E p m wa") auto
  obtain wb1 where ob: "os_OpenFile E p m wb = (r, wb1)" and o: "sim d wa1 wb1"
    using sim_OpenFile[OF assms, of E m] oa by (cases "os_OpenFile E p m wb") auto
  show ?thesis
  proof (cases r)
    case (Inl err)
    then show ?thesis using oa ob o by (simp add: os_WriteFile_def)
  next
    case (Inr f)
    with oa have f: "f = p" by (simp add: os_OpenFile_handle)
    obtain e wa2 where wra: "file_Write E p c wa1 = (e, wa2)" by (cases "file_Write E p c wa1") auto
    obtain wb2 where wrb: "file_Write E p c wb1 = (e, wb2)" and w: "sim d wa2 wb2"
      using sim_Write[OF o assms(2), of E c] wra by (cases "file_Write E p c wb1") auto
    obtain c3 wa3 where cla: "file_Close E p wa2 = (c3, wa3)" by (cases "file_Close E p wa2") auto
    obtain wb3 where clb: "file_Close E p wb2 = (c3, wb3)" and c: "sim d wa3 wb3"
      using sim_Close[OF w, of E p] cla by (cases "file_Close E p wb2") auto
    show ?thesis unfolding os_WriteFile_def oa ob Inr f by (simp add: wra wrb cla clb c)
  qed
qed

lemma sim_writeTextFile:
  assumes "sim d wa wb" "inside d p"
  shows "sim d (writeTextFile E p c wa) (writeTextFile E p c wb)"
proof -
  obtain e wa1 where a: "os_WriteFile E p c 420 wa = (e, wa1)" by (cases "os_WriteFile E p c 420 wa") auto
  obtain wb1 where b: "os_WriteFile E p c 420 wb = (e, wb1)" and r: "sim d wa1 wb1"
    using sim_WriteFile[OF assms, of E c 420] a by (cases "os_WriteFile E p c 420 wb") auto
  show ?thesis unfolding writeTextFile_def a b using r by (cases e) (simp_all add: sim_Printf)
qed

lemma sim_writeImageFile:
  assumes "sim d wa wb" "inside d p"
  shows "sim d (writeImageFile E p wd ht wa) (writeImageFile E p wd ht wb)"
proof -
  define img where "img = \<lparr>img_width = wd, img_height = ht, pixels = entropy E (draws wa)\<rparr>"
  have ia: "Image E wd ht wa = (img, wa\<lparr>draws := draws wa + 1\<rparr>)"
    and ib: "Image E wd ht wb = (img, wb\<lparr>draws := draws wb + 1\<rparr>)"
    using sim_counters(1)[OF assms(1)] by (simp_all add: Image_def img_def)
  note s = sim_draws[OF assms(1), of 1]
  obtain r wa1 where oa: "os_OpenFile E p 438 (wa\<lparr>draws := draws wa + 1\<rparr>) = (r, wa1)"
    by (cases "os_OpenFile E p 438 (wa\<lparr>draws := draws wa + 1\<rparr>)") auto
  obtain wb1 where ob: "os_OpenFile E p 438 (wb\<lparr>draws := draws wb + 1\<rparr>) = (r, wb1)"
    and o: "sim d wa1 wb1"
    using sim_OpenFile[OF s assms(2), of E 438] oa
    by (cases "os_OpenFile E p 438 (wb\<lparr>draws := draws wb + 1\<rparr>)") auto
  show ?thesis
  proof (cases r)
    case (Inl err)
    then show ?thesis unfolding writeImageFile_def os_Create_def ia ib using oa ob o
      by (simp add: sim_Printf)
  next
    case (Inr f)
    with oa have f: "f = p" by (simp add: os_OpenFile_handle)
    define x where "x = encode E (if Ext p = ''.png'' then PNG else JPEG) img"
    obtain e wa2 where wra: "file_Write E p x wa1 = (e, wa2)" by (cases "file_Write E p x wa1") auto
    obtain wb2 where wrb: "file_Write E p x wb1 = (e, wb2)" and w: "sim d wa2 wb2"
      using sim_Write[OF o assms(2), of E x] wra by (cases "file_Write E p x wb1") auto
    obtain c3 wa3 where cla: "file_Close E p wa2 = (c3, wa3)" by (cases "file_Close E p wa2") auto
    obtain wb3 where clb: "file_Close E p wb2 = (c3, wb3)" and c: "sim d wa3 wb3"
      using sim_Close[OF w, of E p] cla by (cases "file_Close E p wb2") auto
    have "writeImageFile E p wd ht wa = wa3"
      unfolding writeImageFile_def os_Create_def ia using oa Inr f wra cla
      by (simp add: png_Encode_def jpeg_Encode_def x_def split: if_splits)
    moreover have "writeImageFile E p wd ht wb = wb3"
      unfolding writeImageFile_def os_Create_def ib using ob Inr f wrb clb
      by (simp add: png_Encode_def jpeg_Encode_def x_def split: if_splits)
    ultimately show ?thesis using c by simp
  qed
qed

lemma sim_csv_Write:
  assumes "sim d wa wb" "inside d (sink cw)"
  shows "\<exists>e cw' wa' wb'. csv_Write E cw r wa = (e, cw', wa') \<and> csv_Write E cw r wb = (e, cw', wb') \<and>
     sim d wa' wb' \<and> sink cw' = sink cw"
proof (cases "werr cw = None \<and> \<not> length (pending cw @ csv_line r) \<le> 4096")
  case False
  then show ?thesis using assms(1) by (auto simp: csv_Write_def Let_def split: option.splits)
next
  case True
  define buf where "buf = pending cw @ csv_line r"
  obtain e wa2 where wra: "file_Write E (sink cw) buf wa = (e, wa2)" by (cases "file_Write E (sink cw) buf wa") auto
  obtain wb2 where wrb: "file_Write E (sink cw) buf wb = (e, wb2)" and w: "sim d wa2 wb2"
    using sim_Write[OF assms, of E buf] wra by (cases "file_Write E (sink cw) buf wb") auto
  show ?thesis using True wra wrb w
    by (cases e) (simp_all add: csv_Write_def Let_def buf_def)
qed

lemma sim_csv_Flush:
  assumes "sim d wa wb" "inside d (sink cw)"
  shows "\<exists>cw' wa' wb'. csv_Flush E cw wa = (cw', wa') \<and> csv_Flush E cw wb = (cw', wb') \<and> sim d wa' wb'"
proof (cases "werr cw = None \<and> pending cw \<noteq> []")
  case False
  then show ?thesis using assms(1) by (auto simp: csv_Flush_def split: option.splits)
next
  case True
  obtain e wa2 where wra: "file_Write E (sink cw) (pending cw) wa = (e, wa2)"
    by (cases "file_Write E (sink cw) (pending cw) wa") auto
  obtain wb2 where wrb: "file_Write E (sink cw) (pending cw) wb = (e, wb2)" and w: "sim d wa2 wb2"
    using sim_Write[OF assms, of E "pending cw"] wra by (cases "file_Write E (sink cw) (pending cw) wb") auto
  show ?thesis using True wra wrb w
    by (cases e) (simp_all add: csv_Flush_def)
qed

lemma sim_rows_loop:
  assumes "sim d wa wb" "inside d (sink cw)"
  shows "\<exists>cw' wa' wb'. rows_loop E cw i rows wa = (cw', wa') \<and> rows_loop E cw i rows wb = (cw', wb') \<and>
     sim d wa' wb' \<and> sink cw' = sink cw"
  using assms
proof (induction i arbitrary: cw wa wb rule: count_up_induct[where n = rows])
  case (1 i)
  show ?case
  proof (cases "i < rows")
    case False
    then show ?thesis using "1.prems"(1) by (simp add: rows_loop.simps)
  next
    case True
    define rcd where "rcd = record_at E (draws wa) (ticks wa)"
    have na: "new_record E wa = (rcd, wa\<lparr>draws := draws wa + 4, ticks := ticks wa + 2\<rparr>)"
      and nb: "new_record E wb = (rcd, wb\<lparr>draws := draws wb + 4, ticks := ticks wb + 2\<rparr>)"
      using sim_counters[OF "1.prems"(1)] by (simp_all add: new_record_eq rcd_def)
    have s1: "sim d (wa\<lparr>draws := draws wa + 4, ticks := ticks wa + 2\<rparr>) (wb\<lparr>draws := draws wb + 4, ticks := ticks wb + 2\<rparr>)"
      using "1.prems"(1) by (simp add: sim_def)
    from sim_csv_Write[OF s1 "1.prems"(2), of E rcd] obtain e cw1 wa2 wb2 where
      c: "csv_Write E cw rcd (wa\<lparr>draws := draws wa + 4, ticks := ticks wa + 2\<rparr>) = (e, cw1, wa2)"
         "csv_Write E cw rcd (wb\<lparr>draws := draws wb + 4, ticks := ticks wb + 2\<rparr>) = (e, cw1, wb2)"
         "sim d wa2 wb2" "sink cw1 = sink cw" by blast
    have i1: "inside d (sink cw1)" using c(4) "1.prems"(2) by simp
    have ua: "rows_loop E cw i rows wa = rows_loop E cw1 (i + 1) rows wa2"
      by (subst rows_loop.simps) (simp only: True if_True na Let_def prod.case c(1))
    have ub: "rows_loop E cw i rows wb = rows_loop E cw1 (i + 1) rows wb2"
      by (subst rows_loop.simps) (simp only: True if_True nb Let_def prod.case c(2))
    from "1.IH"[OF True c(3) i1] c(4)
    show ?thesis unfolding ua ub by simp
  qed
qed

lemma sim_writeCSVFile:
  assumes "sim d wa wb" "inside d p"
  shows "sim d (writeCSVFile E p rows wa) (writeCSVFile E p rows wb)"
proof -
  obtain r wa1 where oa: "os_OpenFile E p 438 wa = (r, wa1)" by (cases "os_OpenFile E p 438 wa") auto
  obtain wb1 where ob: "os_OpenFile E p 438 wb = (r, wb1)" and o: "sim d wa1 wb1"
    using sim_OpenFile[OF assms, of E 438] oa by (cases "os_OpenFile E p 438 wb") auto
  show ?thesis
  proof (cases r)
    case (Inl err)
    then show ?thesis unfolding writeCSVFile_def os_Create_def oa ob using o by (simp add: sim_Printf)
  next
    case (Inr f)
    with oa have f: "f = p" by (simp add: os_OpenFile_handle)
    have s0: "inside d (sink (csv_NewWriter p))" using assms(2) by (simp add: csv_NewWriter_def)
    from sim_csv_Write[OF o s0, of E csv_header] obtain e cw1 wa2 wb2 where
      h: "csv_Write E (csv_NewWriter p) csv_header wa1 = (e, cw1, wa2)"
         "csv_Write E (csv_NewWriter p) csv_header wb1 = (e, cw1, wb2)"
         "sim d wa2 wb2" "sink cw1 = sink (csv_NewWriter p)" by blast
    have s1: "inside d (sink cw1)" using h(4) s0 by simp
    from sim_rows_loop[OF h(3) s1, of E 0 rows] obtain cw2 wa3 wb3 where
      l: "rows_loop E cw1 0 rows wa2 = (cw2, wa3)" "rows_loop E cw1 0 rows wb2 = (cw2, wb3)"
         "sim d wa3 wb3" "sink cw2 = sink cw1" by blast
    have s2: "inside d (sink cw2)" using l(4) s1 by simp
    from sim_csv_Flush[OF l(3) s2, of E] obtain cw3 wa4 wb4 where
      fl: "csv_Flush E cw2 wa3 = (cw3, wa4)" "csv_Flush E cw2 wb3 = (cw3, wb4)" "sim d wa4 wb4" by blast
    obtain c5 wa5 where cla: "file_Close E p wa4 = (c5, wa5)" by (cases "file_Close E p wa4") auto
    obtain wb5 where clb: "file_Close E p wb4 = (c5, wb5)" and c: "sim d wa5 wb5"
      using sim_Close[OF fl(3), of E p] cla by (cases "file_Close E p wb4") auto
    show ?thesis
      unfolding writeCSVFile_def os_Create_def oa ob Inr f
      using h(1,2) l(1,2) fl(1,2) cla clb c by (simp add: csv_header_def)
  qed
qed

lemma inside_Join: "d \<noteq> [] \<Longrightarrow> n \<noteq> [] \<Longrightarrow> inside d (Join d n)"
  by (simp add: Join_def)

lemma inside_Join2: "d \<noteq> [] \<Longrightarrow> a \<noteq> [] \<Longrightarrow> b \<noteq> [] \<Longrightarrow> inside d (Join (Join d a) b)"
  by (simp add: Join_def inside_def)

lemma sim_text_loop:
  assumes "BaseDir cfg \<noteq> []"
  shows "sim (BaseDir cfg) wa wb \<Longrightarrow> sim (BaseDir cfg) (text_loop E cfg i wa) (text_loop E cfg i wb)"
proof (induction i arbitrary: wa wb rule: count_up_induct[where n = "TextFiles cfg"])
  case (1 i)
  show ?case
  proof (cases "i < TextFiles cfg")
    case False
    then show ?thesis using "1.prems" by (subst text_loop_unfold, subst (2) text_loop_unfold) simp
  next
    case True
    have d: "draws wa = draws wb" using "1.prems" by (rule sim_counters)
    have "sim (BaseDir cfg)
       (writeTextFile E (Join (BaseDir cfg) (''document_'' @ Sprintf_d i @ ''.txt'')) (paragraph_src E (draws wa)) (wa\<lparr>draws := draws wa + 1\<rparr>))
       (writeTextFile E (Join (BaseDir cfg) (''document_'' @ Sprintf_d i @ ''.txt'')) (paragraph_src E (draws wa)) (wb\<lparr>draws := draws wb + 1\<rparr>))"
      by (rule sim_writeTextFile[OF sim_draws[OF "1.prems"] inside_Join[OF assms]]) simp
    from "1.IH"[OF True this] show ?thesis
      by (subst text_loop_unfold, subst (2) text_loop_unfold) (simp only: True if_True d)
  qed
qed

lemma sim_csv_loop:
  assumes "BaseDir cfg \<noteq> []"
  shows "sim (BaseDir cfg) wa wb \<Longrightarrow> sim (BaseDir cfg) (csv_loop E cfg i wa) (csv_loop E cfg i wb)"
proof (induction i arbitrary: wa wb rule: count_up_induct[where n = "CsvFiles cfg"])
  case (1 i)
  show ?case
  proof (cases "i < CsvFiles cfg")
    case False
    then show ?thesis using "1.prems" by (subst csv_loop_unfold, subst (2) csv_loop_unfold) simp
  next
    case True
    have "sim (BaseDir cfg)
       (writeCSVFile E (Join (BaseDir cfg) (''transactions_'' @ Sprintf_d i @ ''.csv'')) 100 wa)
       (writeCSVFile E (Join (BaseDir cfg) (''transactions_'' @ Sprintf_d i @ ''.csv'')) 100 wb)"
      by (rule sim_writeCSVFile[OF "1.prems" inside_Join[OF assms]]) simp
    from "1.IH"[OF True this] show ?thesis
      by (subst csv_loop_unfold, subst (2) csv_loop_unfold) (simp only: True if_True)
  qed
qed

lemma sim_image_loop:
  assumes "BaseDir cfg \<noteq> []"
  shows "sim (BaseDir cfg) wa wb \<Longrightarrow> sim (BaseDir cfg) (image_loop E cfg i wa) (image_loop E cfg i wb)"
proof (induction i arbitrary: wa wb rule: count_up_induct[where n = "ImageFiles cfg"])
  case (1 i)
  show ?case
  proof (cases "i < ImageFiles cfg")
    case False
    then show ?thesis using "1.prems" by (subst image_loop_unfold, subst (2) image_loop_unfold) simp
  next
    case True
    have "sim (BaseDir cfg)
       (writeImageFile E (Join (BaseDir cfg) (''photo_'' @ Sprintf_d i @ ''.jpg'')) 640 480 wa)
       (writeImageFile E (Join (BaseDir cfg) (''photo_'' @ Sprintf_d i @ ''.jpg'')) 640 480 wb)"
      by (rule sim_writeImageFile[OF "1.prems" inside_Join[OF assms]]) simp
    from "1.IH"[OF True this] show ?thesis
      by (subst image_loop_unfold, subst (2) image_loop_unfold) (simp only: True if_True)
  qed
qed

lemma sim_subdir_loop:
  assumes "BaseDir cfg \<noteq> []"
  shows "sim (BaseDir cfg) wa wb \<Longrightarrow>
    fst (subdir_loop E cfg i wa) = fst (subdir_loop E cfg i wb) \<and>
    sim (BaseDir cfg) (snd (subdir_loop E cfg i wa)) (snd (subdir_loop E cfg i wb))"
proof (induction i arbitrary: wa wb rule: count_up_induct[where n = "SubDirs cfg"])
  case (1 i)
  show ?case
  proof (cases "i < SubDirs cfg")
    case False
    have "subdir_loop E cfg i wa = (None, wa)" "subdir_loop E cfg i wb = (None, wb)"
      by (subst subdir_loop_unfold, simp add: False)+
    then show ?thesis using "1.prems" by simp
  next
    case True
    have i1: "inside (BaseDir cfg) (subdir_path cfg i)"
      unfolding subdir_path_def by (rule inside_Join[OF assms]) simp
    obtain e wa1 where ma: "os_MkdirAll E (subdir_path cfg i) 493 wa = (e, wa1)"
      by (cases "os_MkdirAll E (subdir_path cfg i) 493 wa") auto
    obtain wb1 where mb: "os_MkdirAll E (subdir_path cfg i) 493 wb = (e, wb1)" and m: "sim (BaseDir cfg) wa1 wb1"
      using sim_MkdirAll[OF "1.prems" i1, of E 493] ma by (cases "os_MkdirAll E (subdir_path cfg i) 493 wb") auto
    show ?thesis
    proof (cases e)
      case (Some err)
      have "subdir_loop E cfg i wa = (Some err, wa1)" "subdir_loop E cfg i wb = (Some err, wb1)"
        by (subst subdir_loop_unfold, simp add: True ma mb Some)+
      then show ?thesis using m by simp
    next
      case None
      have d: "draws wa1 = draws wb1" using m by (rule sim_counters)
      define pa where "pa = Join (subdir_path cfg i) ''secret_note.md''"
      define pb where "pb = Join (subdir_path cfg i) ''thumb.png''"
      have ip: "inside (BaseDir cfg) pa" "inside (BaseDir cfg) pb"
        unfolding pa_def pb_def subdir_path_def by (rule inside_Join2[OF assms]; simp)+
      define wa3 where "wa3 = writeImageFile E pb 100 100 (writeTextFile E pa (phrase_src E (draws wa1)) (wa1\<lparr>draws := draws wa1 + 1\<rparr>))"
      define wb3 where "wb3 = writeImageFile E pb 100 100 (writeTextFile E pa (phrase_src E (draws wa1)) (wb1\<lparr>draws := draws wb1 + 1\<rparr>))"
      have s3: "sim (BaseDir cfg) wa3 wb3"
        unfolding wa3_def wb3_def
        by (rule sim_writeImageFile[OF sim_writeTextFile[OF sim_draws[OF m] ip(1)] ip(2)])
      have ua: "subdir_loop E cfg i wa = subdir_loop E cfg (i + 1) wa3"
        by (subst subdir_loop_unfold) (simp only: True if_True ma None prod.case option.case wa3_def pa_def pb_def)
      have ub: "subdir_loop E cfg i wb = subdir_loop E cfg (i + 1) wb3"
        by (subst subdir_loop_unfold) (simp only: True if_True mb None prod.case option.case wb3_def pa_def pb_def d)
      show ?thesis unfolding ua ub by (rule "1.IH"[OF True s3])
    qed
  qed
qed

lemma generate_independent_of_disk:
  assumes "fst (generateMockData E cfg w) = None" "draws w' = draws w" "ticks w' = ticks w"
  shows "fst (generateMockData E cfg w') = None"
    "sim (BaseDir cfg) (snd (generateMockData E cfg w)) (snd (generateMockData E cfg w'))"
proof -
  from assms(1) have h: "BaseDir cfg \<noteq> []" "faults E (RemoveAll (BaseDir cfg)) = None"
    "faults E (MkdirAll (BaseDir cfg) 493) = None"
    by (simp_all add: generate_return)
  show "fst (generateMockData E cfg w') = None"
    using assms(1) by (simp add: generate_return)
  define wa where "wa = w\<lparr>trace := trace w @ [RemoveAll (BaseDir cfg), MkdirAll (BaseDir cfg) 493],
       fs := (\<lambda>q. if inside (BaseDir cfg) q then None else fs w q)(BaseDir cfg \<mapsto> Dir 493)\<rparr>"
  define wb where "wb = w'\<lparr>trace := trace w' @ [RemoveAll (BaseDir cfg), MkdirAll (BaseDir cfg) 493],
       fs := (\<lambda>q. if inside (BaseDir cfg) q then None else fs w' q)(BaseDir cfg \<mapsto> Dir 493)\<rparr>"
  have s: "sim (BaseDir cfg) wa wb" using assms(2,3) by (simp add: sim_def wa_def wb_def)
  have ga: "generateMockData E cfg w = subdir_loop E cfg 0 (image_loop E cfg 0 (csv_loop E cfg 0 (text_loop E cfg 0 wa)))"
    by (subst generate_split) (simp add: h wa_def)
  have gb: "generateMockData E cfg w' = subdir_loop E cfg 0 (image_loop E cfg 0 (csv_loop E cfg 0 (text_loop E cfg 0 wb)))"
    by (subst generate_split) (simp add: h wb_def)
  show "sim (BaseDir cfg) (snd (generateMockData E cfg w)) (snd (generateMockData E cfg w'))"
    unfolding ga gb
    using sim_subdir_loop[OF h(1) sim_image_loop[OF h(1) sim_csv_loop[OF h(1) sim_text_loop[OF h(1) s]]]]
    by blast
qed

text \<open>
  Claim C7.  Run \<open>generateMockData\<close> twice in succession with the same configuration,
  in any two environments, and let the second run return no error.  Then at the base
  directory and everywhere below it the file system after the second run is the one the
  second run produces when started, at the same positions of the random and clock
  streams, on an empty disk: every path that exists below the base directory was created
  by the second run, and nothing the first run created is left.
\<close>

theorem second_run_replaces_first:
  assumes "fst (generateMockData E2 cfg (snd (generateMockData E1 cfg w0))) = None"
  shows "fst (generateMockData E2 cfg ((snd (generateMockData E1 cfg w0))\<lparr>fs := Map.empty\<rparr>)) = None \<and>
    (\<forall>q. inside (BaseDir cfg) q \<longrightarrow>
       fs (snd (generateMockData E2 cfg (snd (generateMockData E1 cfg w0)))) q =
       fs (snd (generateMockData E2 cfg ((snd (generateMockData E1 cfg w0))\<lparr>fs := Map.empty\<rparr>))) q) \<and>
    below (fs (snd (generateMockData E2 cfg (snd (generateMockData E1 cfg w0))))) (BaseDir cfg) =
    below (fs (snd (generateMockData E2 cfg ((snd (generateMockData E1 cfg w0))\<lparr>fs := Map.empty\<rparr>)))) (BaseDir cfg)"
proof -
  define w1 where "w1 = snd (generateMockData E1 cfg w0)"
  have a: "fst (generateMockData E2 cfg w1) = None" using assms by (simp add: w1_def)
  note g = generate_independent_of_disk[OF a, of "w1\<lparr>fs := Map.empty\<rparr>"]
  have s: "\<forall>q. inside (BaseDir cfg) q \<longrightarrow>
       fs (snd (generateMockData E2 cfg w1)) q = fs (snd (generateMockData E2 cfg (w1\<lparr>fs := Map.empty\<rparr>))) q"
    using g(2) by (simp add: sim_def)
  then have "below (fs (snd (generateMockData E2 cfg w1))) (BaseDir cfg) =
    below (fs (snd (generateMockData E2 cfg (w1\<lparr>fs := Map.empty\<rparr>)))) (BaseDir cfg)"
    by (auto simp: below_def)
  with s g(1) show ?thesis unfolding w1_def by simp
qed

theorem second_run_replaces_first_witness:
  "fst (generateMockData quiet_env config
          ((snd (generateMockData full_disk_env config used_world))\<lparr>fs := Map.empty\<rparr>)) = None \<and>
   below (fs (snd (generateMockData quiet_env config
                     (snd (generateMockData full_disk_env config used_world))))) (BaseDir config) =
   below (fs (snd (generateMockData quiet_env config
                     ((snd (generateMockData full_disk_env config used_world))\<lparr>fs := Map.empty\<rparr>))))
     (BaseDir config)"
proof -
  have "fst (generateMockData quiet_env config (snd (generateMockData full_disk_env config used_world))) = None"
    by (simp add: generate_return quiet_env_def config_def)
  from second_run_replaces_first[OF this] show ?thesis by simp
qed


subsection \<open>Digits, two decimals, and the Amount field\<close>

lemma of_char_digit: "d < 10 \<Longrightarrow> (of_char (digit_char d) :: nat) = 48 + d"
  by (simp add: digit_char_def)

lemma digit_char_props:
  assumes "d < 10"
  shows "is_digit (digit_char d)" "digit_val (digit_char d) = d"
  using assms by (simp_all add: is_digit_def digit_val_def of_char_digit)

lemma is_digit_plain:
  assumes "is_digit c"
  shows "c \<noteq> CHR ''.''" "c \<noteq> CHR ''-''" "c \<noteq> LF" "c \<noteq> CR"
    "c \<noteq> DQUOTE" "c \<noteq> COMMA" "c \<noteq> CHR '' ''"
  using assms by (auto simp: is_digit_def)

lemma show_nat_digits: "list_all is_digit (show_nat n)"
  by (induction n rule: show_nat.induct) (subst show_nat.simps, simp add: digit_char_props)

lemma show_nat_nonempty [simp]: "show_nat n \<noteq> []"
  by (subst show_nat.simps) simp

lemma nat_of_digits_snoc: "nat_of_digits (s @ [c]) = 10 * nat_of_digits s + digit_val c"
  by (simp add: nat_of_digits_def)

lemma nat_of_show_nat: "nat_of_digits (show_nat n) = n"
proof (induction n rule: show_nat.induct)
  case (1 n)
  show ?case
  proof (cases "n < 10")
    case True
    then show ?thesis by (subst show_nat.simps) (simp add: nat_of_digits_def digit_char_props)
  next
    case False
    then show ?thesis using "1.IH"
      by (subst show_nat.simps) (simp add: nat_of_digits_snoc digit_char_props)
  qed
qed

lemma show_nat_length:
  "n < 10 \<Longrightarrow> length (show_nat n) = 1"
  "10 \<le> n \<Longrightarrow> n < 100 \<Longrightarrow> length (show_nat n) = 2"
  "100 \<le> n \<Longrightarrow> n < 1000 \<Longrightarrow> length (show_nat n) = 3"
  "1000 \<le> n \<Longrightarrow> n < 10000 \<Longrightarrow> length (show_nat n) = 4"
proof -
  show 1: "n < 10 \<Longrightarrow> length (show_nat n) = 1" for n by (subst show_nat.simps) simp
  show 2: "10 \<le> n \<Longrightarrow> n < 100 \<Longrightarrow> length (show_nat n) = 2" for n
    by (subst show_nat.simps) (simp add: 1)
  show 3: "100 \<le> n \<Longrightarrow> n < 1000 \<Longrightarrow> length (show_nat n) = 3" for n
    by (subst show_nat.simps) (simp add: 2)
  show "1000 \<le> n \<Longrightarrow> n < 10000 \<Longrightarrow> length (show_nat n) = 4"
    by (subst show_nat.simps) (simp add: 3)
qed

lemma show_nat_width: "0 < w \<Longrightarrow> n < 10 ^ w \<Longrightarrow> length (show_nat n) \<le> w"
proof (induction n arbitrary: w rule: show_nat.induct)
  case (1 n)
  show ?case
  proof (cases "n < 10")
    case True
    then show ?thesis using "1.prems" by (subst show_nat.simps) simp
  next
    case False
    then obtain v where w: "w = Suc v" "0 < v"
      using "1.prems" by (cases w; cases "w - 1") auto
    have "n div 10 < 10 ^ v" using "1.prems" w by (simp add: less_mult_imp_div_less mult.commute)
    then have "length (show_nat (n div 10)) \<le> v" using "1.IH"[OF False w(2)] by simp
    then show ?thesis using False w by (subst show_nat.simps) simp
  qed
qed

lemma nat_of_digits_zeros: "nat_of_digits (replicate k CHR ''0'' @ s) = nat_of_digits s"
  by (induction k) (simp_all add: nat_of_digits_def digit_val_def)

lemma is_digit_zero: "is_digit CHR ''0''"
  by (simp add: is_digit_def)

lemma appendInt_digits:
  assumes "0 \<le> k" "k < 10 ^ w" "0 < w"
  shows "length (appendInt k w) = w" "list_all is_digit (appendInt k w)"
    "nat_of_digits (appendInt k w) = nat k"
proof -
  have "nat k < 10 ^ w" using assms by (simp add: nat_less_iff)
  then have "length (show_nat (nat k)) \<le> w" using assms(3) by (rule show_nat_width[rotated])
  then show "length (appendInt k w) = w" using assms(1) by (simp add: appendInt_def Let_def)
  show "list_all is_digit (appendInt k w)"
    using assms(1) show_nat_digits[of "nat k"]
    by (auto simp: appendInt_def Let_def list_all_iff is_digit_zero)
  show "nat_of_digits (appendInt k w) = nat k"
    using assms(1) by (simp add: appendInt_def Let_def nat_of_digits_zeros nat_of_show_nat)
qed

lemma Float64_unit: "0 \<le> Float64 r" "Float64 r < 1"
proof -
  show "0 \<le> Float64 r" by (simp add: Float64_def)
  have "r mod 2 ^ 53 < 2 ^ 53" by simp
  then have "(of_nat (r mod 2 ^ 53) :: rat) < of_nat (2 ^ 53)" by (simp only: of_nat_less_iff)
  then show "Float64 r < 1" by (simp add: Float64_def)
qed

lemma float64Range_amount: "1 \<le> float64Range r 1 1000" "float64Range r 1 1000 < 1000"
  using Float64_unit[of r] by (simp_all add: float64Range_def)

lemma round_half_even_cases:
  "round_half_even q = \<lfloor>q\<rfloor> \<or> round_half_even q = \<lfloor>q\<rfloor> + 1 \<and> 1 / 2 \<le> q - of_int \<lfloor>q\<rfloor>"
  by (auto simp: round_half_even_def Let_def)

lemma round_half_even_near: "\<bar>of_int (round_half_even q) - q\<bar> \<le> 1 / 2"
proof -
  have "of_int \<lfloor>q\<rfloor> \<le> q" "q < of_int \<lfloor>q\<rfloor> + 1" by linarith+
  then show ?thesis by (auto simp: round_half_even_def Let_def)
qed

lemma round_half_even_lower: "of_int a \<le> q \<Longrightarrow> a \<le> round_half_even q"
proof -
  assume "of_int a \<le> q"
  then have "a \<le> \<lfloor>q\<rfloor>" by (simp add: le_floor_iff)
  then show ?thesis using round_half_even_cases[of q] by auto
qed

lemma round_half_even_upper:
  assumes "q \<le> of_int b" shows "round_half_even q \<le> b"
proof -
  show ?thesis
  proof (cases "q = of_int b")
    case True
    then show ?thesis by (simp add: round_half_even_def)
  next
    case False
    then have "q < of_int b" using assms by simp
    then have "\<lfloor>q\<rfloor> < b" by (simp add: floor_less_iff)
    then show ?thesis using round_half_even_cases[of q] by auto
  qed
qed

lemma takeWhile_digits:
  assumes "list_all is_digit ip"
  shows "takeWhile (\<lambda>c. c \<noteq> CHR ''.'') (ip @ CHR ''.'' # fp) = ip"
proof -
  have "\<forall>c\<in>set ip. c \<noteq> CHR ''.''" using assms is_digit_plain(1) by (auto simp: list_all_iff)
  then show ?thesis by (simp add: takeWhile_append2)
qed

lemma parse_fixed2_digits:
  assumes "list_all is_digit ip" "ip \<noteq> []" "list_all is_digit fp" "length fp = 2"
  shows "parse_fixed2 (ip @ ''.'' @ fp) = Some (of_nat (nat_of_digits ip) + of_nat (nat_of_digits fp) / 100)"
  using assms by (simp add: parse_fixed2_def takeWhile_digits Let_def)

lemma parse_fixed2_Sprintf:
  assumes "0 \<le> x"
  shows "parse_fixed2 (Sprintf_2f x) = Some (of_int (round_half_even (100 * x)) / 100)"
proof -
  define c where "c = round_half_even (100 * x)"
  have c0: "0 \<le> c" unfolding c_def using assms by (intro round_half_even_lower) simp
  have m: "0 \<le> c mod 100" "c mod 100 < 10 ^ 2" by simp_all
  note fp = appendInt_digits[OF m, simplified]
  have s: "Sprintf_2f x = show_nat (nat (c div 100)) @ ''.'' @ appendInt (c mod 100) 2"
    using assms by (simp add: Sprintf_2f_def c_def Let_def)
  have "parse_fixed2 (Sprintf_2f x)
      = Some (of_nat (nat (c div 100)) + of_nat (nat (c mod 100)) / 100)"
    unfolding s using fp
    by (subst parse_fixed2_digits) (simp_all add: show_nat_digits nat_of_show_nat)
  also have "(of_nat (nat (c div 100)) :: rat) + of_nat (nat (c mod 100)) / 100 = of_int c / 100"
  proof -
    have "c = 100 * (c div 100) + c mod 100" by simp
    then have "(of_int c :: rat) = 100 * of_int (c div 100) + of_int (c mod 100)"
      by (metis of_int_add of_int_mult of_int_numeral)
    moreover have "0 \<le> c div 100" using c0 by (simp add: pos_imp_zdiv_nonneg_iff)
    ultimately show ?thesis by simp
  qed
  finally show ?thesis by (simp add: c_def)
qed

lemma record_at_eq:
  "record_at E d t =
     [uuid_src E d,
      Format_date (randIntRange (entropy E (d + 1)) (AddDate (clock E t) 0 (- 6) 0) (clock E (t + 1))),
      Sprintf_2f (float64Range (entropy E (d + 2)) 1 1000),
      phrase_src E (d + 3)]"
  by (simp add: record_at_def new_record_def prims Let_def eval_nat_numeral)

lemma amount_ok:
  assumes "1 \<le> x" "x \<le> 1000"
  shows "\<exists>a. parse_fixed2 (Sprintf_2f x) = Some a \<and> 1 \<le> a \<and> a \<le> 1000 \<and> \<bar>a - x\<bar> \<le> 1 / 200"
proof -
  define c where "c = round_half_even (100 * x)"
  have "100 \<le> c" unfolding c_def using assms by (intro round_half_even_lower) simp
  moreover have "c \<le> 100000" unfolding c_def using assms by (intro round_half_even_upper) simp
  moreover have "\<bar>of_int c - 100 * x\<bar> \<le> 1 / 2" unfolding c_def by (rule round_half_even_near)
  ultimately have b: "1 \<le> (of_int c :: rat) / 100 \<and> (of_int c :: rat) / 100 \<le> 1000 \<and>
     \<bar>of_int c / 100 - x\<bar> \<le> 1 / 200"
    by (simp add: abs_le_iff field_simps)
  have "parse_fixed2 (Sprintf_2f x) = Some (of_int c / 100)"
    using parse_fixed2_Sprintf[of x] assms by (simp add: c_def)
  with b show ?thesis by blast
qed

lemma csv_records_at:
  "r \<in> set (csv_records E d t n) \<Longrightarrow> \<exists>k < n. r = record_at E (d + 4 * k) (t + 2 * k)"
proof (induction n arbitrary: d t)
  case 0
  then show ?case by simp
next
  case (Suc n)
  show ?case
  proof (cases "r = record_at E d t")
    case True
    then show ?thesis by (intro exI[of _ 0]) simp
  next
    case False
    then have "r \<in> set (csv_records E (d + 4) (t + 2) n)" using Suc.prems by simp
    from Suc.IH[OF this] obtain k where "k < n" "r = record_at E (d + 4 + 4 * k) (t + 2 + 2 * k)"
      by auto
    then show ?thesis by (intro exI[of _ "Suc k"]) (simp add: add.assoc)
  qed
qed

lemma csv_records_length [simp]: "length (csv_records E d t n) = n"
  by (induction n arbitrary: d t) simp_all

lemma fault_free_quiet: "fault_free quiet_env"
  by (simp add: fault_free_def quiet_env_def)

text \<open>
  Claim C5.  When no call fails, the file \<open>writeCSVFile\<close> leaves is the header followed
  by the records the loop built, and in each of these records the third field (Amount) is
  \<^verbatim>\<open>%.2f\<close> of a number \<open>x\<close> drawn from the range 1 to 1000: the field reads as a
  decimal numeral with exactly two digits after the point, and the number \<open>a\<close> it denotes
  lies between 1.00 and 1000.00 and differs from \<open>x\<close> by at most half a cent.
\<close>

theorem amount_field_two_decimals_in_range:
  assumes "fault_free E"
  shows "\<exists>m. fs (writeCSVFile E p rows w) p =
           Some (File m (concat (map csv_line
             (csv_header # csv_records E (draws w) (ticks w) (nat rows))))) \<and>
         (\<forall>r \<in> set (csv_records E (draws w) (ticks w) (nat rows)).
            length r = 4 \<and>
            (\<exists>x a. r ! 2 = Sprintf_2f x \<and> 1 \<le> x \<and> x \<le> 1000 \<and>
               parse_fixed2 (r ! 2) = Some a \<and> 1 \<le> a \<and> a \<le> 1000 \<and> \<bar>a - x\<bar> \<le> 1 / 200))"
proof -
  have o: "faults E (OpenFile p 438) = None" using assms by (simp add: fault_free_def)
  from writeCSVFile_created(1)[OF o, of rows w] assms
  obtain m where f: "fs (writeCSVFile E p rows w) p
      = Some (File m (csv_text E (draws w) (ticks w) rows))"
    by blast
  have "length r = 4 \<and>
        (\<exists>x a. r ! 2 = Sprintf_2f x \<and> 1 \<le> x \<and> x \<le> 1000 \<and>
           parse_fixed2 (r ! 2) = Some a \<and> 1 \<le> a \<and> a \<le> 1000 \<and> \<bar>a - x\<bar> \<le> 1 / 200)"
    if "r \<in> set (csv_records E (draws w) (ticks w) (nat rows))" for r
  proof -
    from csv_records_at[OF that] obtain k where
      r: "r = record_at E (draws w + 4 * k) (ticks w + 2 * k)" by blast
    define x where "x = float64Range (entropy E (draws w + 4 * k + 2)) 1 1000"
    have x: "1 \<le> x" "x \<le> 1000"
      using float64Range_amount[of "entropy E (draws w + 4 * k + 2)"] by (simp_all add: x_def)
    have a: "r ! 2 = Sprintf_2f x" "length r = 4" by (simp_all add: r record_at_eq x_def)
    from amount_ok[OF x] a x show ?thesis by auto
  qed
  with f show ?thesis by (auto simp: csv_text_def)
qed

theorem amount_field_two_decimals_in_range_witness:
  "fault_free quiet_env \<and>
   record_at quiet_env 0 0 \<in> set (csv_records quiet_env (draws used_world) (ticks used_world) (nat 1)) \<and>
   (\<exists>x a. record_at quiet_env 0 0 ! 2 = Sprintf_2f x \<and> 1 \<le> x \<and> x \<le> 1000 \<and>
      parse_fixed2 (record_at quiet_env 0 0 ! 2) = Some a \<and> 1 \<le> a \<and> a \<le> 1000 \<and>
      \<bar>a - x\<bar> \<le> 1 / 200)"
proof -
  have m: "record_at quiet_env 0 0
      \<in> set (csv_records quiet_env (draws used_world) (ticks used_world) (nat 1))"
    by (simp add: used_world_def)
  from amount_field_two_decimals_in_range[OF fault_free_quiet, of "''t.csv''" 1 used_world] m
  show ?thesis using fault_free_quiet by blast
qed


subsection \<open>The calendar, and the Timestamp field\<close>



















































subsection \<open>The lines of a CSV file\<close>

lemma scan_bare:
  assumes "DQUOTE \<notin> set f" "COMMA \<notin> set f" "field_end rest"
  shows "csv_scan Bare cur flds (f @ rest) = after_field (flds @ [cur @ f]) rest"
  using assms
proof (induction f arbitrary: cur)
  case Nil
  then show ?case by (cases rest) (simp_all add: field_end_def after_field_def)
next
  case (Cons c f)
  then show ?case by auto
qed

lemma scan_quoted:
  assumes "field_end rest"
  shows "csv_scan Quoted cur flds (quote_body f @ DQUOTE # rest) = after_field (flds @ [cur @ f]) rest"
  using assms
proof (induction f arbitrary: cur)
  case Nil
  then show ?case by (cases rest) (simp_all add: field_end_def after_field_def)
next
  case (Cons c f)
  then show ?case by simp
qed

lemma plain_field:
  assumes "\<not> fieldNeedsQuotes f"
  shows "DQUOTE \<notin> set f" "COMMA \<notin> set f"
  using assms by (auto simp: fieldNeedsQuotes_def list_ex_iff split: if_splits)

lemma scan_field:
  assumes "field_end rest"
  shows "csv_scan FieldStart [] flds (csv_field f @ rest) = after_field (flds @ [f]) rest"
proof (cases "fieldNeedsQuotes f")
  case True
  then show ?thesis using scan_quoted[OF assms, of "[]" flds f] by (simp add: csv_field_def)
next
  case False
  note p = plain_field[OF False]
  show ?thesis
  proof (cases f)
    case Nil
    then show ?thesis using assms False
      by (cases rest) (simp_all add: csv_field_def field_end_def after_field_def)
  next
    case (Cons c g)
    then have "csv_scan FieldStart [] flds (csv_field f @ rest) = csv_scan Bare [c] flds (g @ rest)"
      using False p by (auto simp: csv_field_def)
    also have "\<dots> = after_field (flds @ [[c] @ g]) rest"
      using p Cons by (intro scan_bare[OF _ _ assms]) simp_all
    finally show ?thesis using Cons by simp
  qed
qed

lemma scan_join:
  "csv_scan FieldStart [] flds (csv_join (f # gs)) = Some (flds @ f # gs)"
proof (induction gs arbitrary: f flds)
  case Nil
  show ?case using scan_field[of "[]" flds f] by (simp add: field_end_def after_field_def)
next
  case (Cons g gs)
  have "csv_scan FieldStart [] flds (csv_field f @ COMMA # csv_join (g # gs))
      = csv_scan FieldStart [] (flds @ [f]) (csv_join (g # gs))"
    using scan_field[of "COMMA # csv_join (g # gs)" flds f] by (simp add: field_end_def after_field_def)
  then show ?case using Cons.IH[of "flds @ [f]" g] by simp
qed

lemma csv_fields_join: "flds \<noteq> [] \<Longrightarrow> csv_fields (csv_join flds) = Some flds"
  using scan_join[of "[]" "hd flds" "tl flds"] by (simp add: csv_fields_def)

lemma quote_body_LF: "LF \<notin> set f \<Longrightarrow> LF \<notin> set (quote_body f)"
  by (induction f) auto

lemma csv_field_LF: "LF \<notin> set f \<Longrightarrow> LF \<notin> set (csv_field f)"
  by (simp add: csv_field_def quote_body_LF)

lemma csv_join_LF: "\<forall>f \<in> set flds. LF \<notin> set f \<Longrightarrow> LF \<notin> set (csv_join flds)"
  by (induction flds rule: csv_join.induct) (simp_all add: csv_field_LF)

lemma show_nat_LF: "LF \<notin> set (show_nat n)"
  using show_nat_digits[of n] is_digit_plain(3) by (auto simp: list_all_iff)

lemma appendInt_LF: "LF \<notin> set (appendInt x k)"
  using show_nat_LF by (auto simp: appendInt_def Let_def)

lemma Format_date_LF: "LF \<notin> set (Format_date t)"
  by (cases "Date_of t") (simp add: Format_date_def appendInt_LF)

lemma Sprintf_2f_LF: "LF \<notin> set (Sprintf_2f x)"
  by (simp add: Sprintf_2f_def Let_def appendInt_LF show_nat_LF)

lemma record_at_LF:
  assumes "\<forall>k. LF \<notin> set (uuid_src E k) \<and> LF \<notin> set (phrase_src E k)"
  shows "LF \<notin> set (csv_join (record_at E d t))"
  using assms by (intro csv_join_LF) (simp add: record_at_eq Format_date_LF Sprintf_2f_LF)

lemma header_line: "csv_join csv_header = ''UserID,Timestamp,Amount,Description''"
  by code_simp

lemma csv_text_lines:
  "csv_text E d t rows =
     concat (map (\<lambda>l. l @ [LF]) (map csv_join (csv_header # csv_records E d t (nat rows))))"
proof -
  have "csv_line = (\<lambda>x. csv_join x @ [LF])" by (rule ext) (simp add: csv_line_def)
  then show ?thesis by (simp add: csv_text_def comp_def csv_line_def)
qed

text \<open>
  Claim C2.  Suppose no call fails and no UUID and no phrase of the random source contains
  a line feed.  Then the file \<open>writeCSVFile\<close> leaves for 100 rows consists of exactly 101
  lines, each ended by a line feed and with nothing after the last one; the first line is
  \<^verbatim>\<open>UserID,Timestamp,Amount,Description\<close> and reads back as these four fields; each of
  the 100 lines after it reads back, by the CSV syntax, as exactly four fields (a comma
  inside a field is written within quotes and does not separate fields).
\<close>

theorem csv_file_header_and_hundred_rows:
  assumes "fault_free E"
    and "\<forall>k. LF \<notin> set (uuid_src E k) \<and> LF \<notin> set (phrase_src E k)"
  shows "\<exists>m ls. fs (writeCSVFile E p 100 w) p = Some (File m (concat (map (\<lambda>l. l @ [LF]) ls))) \<and>
           length ls = 101 \<and> (\<forall>l \<in> set ls. LF \<notin> set l) \<and>
           ls ! 0 = ''UserID,Timestamp,Amount,Description'' \<and>
           csv_fields (ls ! 0) = Some [''UserID'', ''Timestamp'', ''Amount'', ''Description''] \<and>
           (\<forall>j. 1 \<le> j \<and> j \<le> 100 \<longrightarrow>
              (\<exists>flds. csv_fields (ls ! j) = Some flds \<and> length flds = 4 \<and>
                 ls ! j = csv_join flds))"
proof -
  define rs where "rs = csv_records E (draws w) (ticks w) (nat 100)"
  define ls where "ls = map csv_join (csv_header # rs)"
  have o: "faults E (OpenFile p 438) = None" using assms(1) by (simp add: fault_free_def)
  from writeCSVFile_created(1)[OF o, of 100 w] assms(1)
  obtain m where "fs (writeCSVFile E p 100 w) p = Some (File m (csv_text E (draws w) (ticks w) 100))"
    by blast
  then have f: "fs (writeCSVFile E p 100 w) p = Some (File m (concat (map (\<lambda>l. l @ [LF]) ls)))"
    by (simp only: csv_text_lines ls_def rs_def)
  have n: "length rs = 100" by (simp add: rs_def)
  then have len: "length ls = 101" by (simp add: ls_def)
  have rec: "\<exists>d t. r = record_at E d t" if "r \<in> set rs" for r
    using csv_records_at[OF that[unfolded rs_def]] by blast
  have h0: "ls ! 0 = ''UserID,Timestamp,Amount,Description''" by (simp add: ls_def header_line)
  have h1: "csv_fields (ls ! 0) = Some [''UserID'', ''Timestamp'', ''Amount'', ''Description'']"
    using csv_fields_join[of csv_header] by (simp add: ls_def) (simp add: csv_header_def)
  have nl: "LF \<notin> set l" if lm: "l \<in> set ls" for l
  proof (cases "l = csv_join csv_header")
    case True
    then show ?thesis by (simp add: header_line)
  next
    case False
    then obtain r where "r \<in> set rs" "l = csv_join r" using lm by (auto simp: ls_def)
    then show ?thesis using rec record_at_LF[OF assms(2)] by blast
  qed
  have row: "\<exists>flds. csv_fields (ls ! j) = Some flds \<and> length flds = 4 \<and> ls ! j = csv_join flds"
    if jr: "1 \<le> j \<and> j \<le> 100" for j
  proof -
    obtain i where i: "j = Suc i" "i < 100" using jr by (cases j) auto
    then have "rs ! i \<in> set rs" using n by simp
    then obtain d t where r: "rs ! i = record_at E d t" using rec by blast
    have l: "ls ! j = csv_join (rs ! i)" using i n by (simp add: ls_def)
    have "length (rs ! i) = 4" "rs ! i \<noteq> []" by (simp_all add: r record_at_eq)
    then show ?thesis using l csv_fields_join[of "rs ! i"] by auto
  qed
  from f len nl h0 h1 row show ?thesis by blast
qed

theorem csv_file_header_and_hundred_rows_witness:
  "fault_free quiet_env \<and>
   (\<forall>k. LF \<notin> set (uuid_src quiet_env k) \<and> LF \<notin> set (phrase_src quiet_env k)) \<and>
   COMMA \<in> set (phrase_src quiet_env 3) \<and>
   (\<exists>m ls. fs (writeCSVFile quiet_env ''t.csv'' 100 used_world) ''t.csv''
              = Some (File m (concat (map (\<lambda>l. l @ [LF]) ls))) \<and>
           length ls = 101 \<and>
           ls ! 0 = ''UserID,Timestamp,Amount,Description'' \<and>
           (\<exists>flds. csv_fields (ls ! 1) = Some flds \<and> length flds = 4 \<and> ls ! 1 = csv_join flds))"
proof -
  have h: "\<forall>k. LF \<notin> set (uuid_src quiet_env k) \<and> LF \<notin> set (phrase_src quiet_env k)"
    by (simp add: quiet_env_def)
  have c: "COMMA \<in> set (phrase_src quiet_env 3)" by (simp add: quiet_env_def)
  from csv_file_header_and_hundred_rows[OF fault_free_quiet h, of "''t.csv''" used_world]
  obtain m ls where
    "fs (writeCSVFile quiet_env ''t.csv'' 100 used_world) ''t.csv''
       = Some (File m (concat (map (\<lambda>l. l @ [LF]) ls)))"
    "length ls = 101" "ls ! 0 = ''UserID,Timestamp,Amount,Description''"
    "\<forall>j. 1 \<le> j \<and> j \<le> 100 \<longrightarrow>
        (\<exists>flds. csv_fields (ls ! j) = Some flds \<and> length flds = 4 \<and> ls ! j = csv_join flds)"
    by blast
  moreover from this(4) have
    "\<exists>flds. csv_fields (ls ! 1) = Some flds \<and> length flds = 4 \<and> ls ! 1 = csv_join flds"
    by simp
  ultimately show ?thesis using fault_free_quiet h c by blast
qed


subsection \<open>Failures that are swallowed: a file missing, an error not printed\<close>











end
